theory Spec2Isabelle
  imports Main "HOL-Library.AList" "HOL-Library.Word"
begin

unbundle bit_operations_syntax

section \<open>Strings\<close>

text \<open>
  A Go \<^verbatim>\<open>string\<close> is a sequence of bytes; it is modelled as \<^typ>\<open>string\<close>, a list of
  8-bit characters. Where the library reads a string as text it decodes UTF-8:
  \<^verbatim>\<open>utf8.DecodeRuneInString\<close> returns the rune at the front of a string and its width
  in bytes, and the rune \<open>U+FFFD\<close> with width 1 for a byte that starts no valid
  encoding.
\<close>

definition upperChars :: string where
  "upperChars = ''ABCDEFGHIJKLMNOPQRSTUVWXYZ''"

definition lowerChars :: string where
  "lowerChars = ''abcdefghijklmnopqrstuvwxyz''"

definition digitChars :: string where
  "digitChars = ''0123456789''"

definition RuneError :: nat where
  "RuneError = 0xFFFD"

text \<open>
  For a leading byte of a sequence of several bytes: the length of the sequence and
  the range that the second byte must be in.
\<close>

definition leadByte :: "nat \<Rightarrow> (nat \<times> nat \<times> nat) option" where
  "leadByte s0 =
     (if 0xC2 \<le> s0 \<and> s0 \<le> 0xDF then Some (2, 0x80, 0xBF)
      else if s0 = 0xE0 then Some (3, 0xA0, 0xBF)
      else if s0 = 0xED then Some (3, 0x80, 0x9F)
      else if 0xE1 \<le> s0 \<and> s0 \<le> 0xEF then Some (3, 0x80, 0xBF)
      else if s0 = 0xF0 then Some (4, 0x90, 0xBF)
      else if 0xF1 \<le> s0 \<and> s0 \<le> 0xF3 then Some (4, 0x80, 0xBF)
      else if s0 = 0xF4 then Some (4, 0x80, 0x8F)
      else None)"

definition DecodeRuneInString :: "string \<Rightarrow> nat \<times> nat" where
  "DecodeRuneInString s =
     (if length s < 1 then (RuneError, 0)
      else
        let s0 = of_char (s ! 0)
        in if s0 < 0x80 then (s0, 1)
           else case leadByte s0 of
             None \<Rightarrow> (RuneError, 1)
           | Some (sz, lo, hi) \<Rightarrow>
               if length s < sz then (RuneError, 1)
               else
                 let s1 = of_char (s ! 1)
                 in if s1 < lo \<or> hi < s1 then (RuneError, 1)
                    else if sz \<le> 2 then ((s0 mod 32) * 64 + s1 mod 64, 2)
                    else
                      let s2 = of_char (s ! 2)
                      in if s2 < 0x80 \<or> 0xBF < s2 then (RuneError, 1)
                         else if sz \<le> 3
                           then ((s0 mod 16) * 4096 + (s1 mod 64) * 64 + s2 mod 64, 3)
                         else
                           let s3 = of_char (s ! 3)
                           in if s3 < 0x80 \<or> 0xBF < s3 then (RuneError, 1)
                              else ((s0 mod 8) * 262144 + (s1 mod 64) * 4096
                                      + (s2 mod 64) * 64 + s3 mod 64, 4))"

text \<open>The runes of a string, as a \<^verbatim>\<open>range\<close> loop over the string yields them.\<close>

function runes :: "string \<Rightarrow> nat list" where
  "runes [] = []"
| "runes (c # t) = (case DecodeRuneInString (c # t) of (r, w) \<Rightarrow> r # runes (drop (w - 1) t))"
  by pat_completeness auto
termination
  by (relation "measure length") auto

declare runes.simps(2) [simp del]

text \<open>
  \<^verbatim>\<open>utf8.AppendRune\<close>: the UTF-8 encoding of a rune; a surrogate or a value beyond
  \<open>U+10FFFF\<close> is written as \<open>U+FFFD\<close>.
\<close>

definition EncodeRune :: "nat \<Rightarrow> string" where
  "EncodeRune r =
     (if r \<le> 0x7F then [char_of r]
      else if r \<le> 0x7FF then [char_of (0xC0 + r div 64), char_of (0x80 + r mod 64)]
      else if r > 0x10FFFF \<or> (0xD800 \<le> r \<and> r \<le> 0xDFFF) then [CHR 0xEF, CHR 0xBF, CHR 0xBD]
      else if r \<le> 0xFFFF
        then [char_of (0xE0 + r div 4096), char_of (0x80 + (r div 64) mod 64),
              char_of (0x80 + r mod 64)]
      else [char_of (0xF0 + r div 262144), char_of (0x80 + (r div 4096) mod 64),
            char_of (0x80 + (r div 64) mod 64), char_of (0x80 + r mod 64)])"

text \<open>
  \<^verbatim>\<open>unicode.ToLower\<close> maps A-Z to a-z and keeps every other ASCII rune; for a rune
  above ASCII it looks up the case tables of the Unicode standard. These tables
  belong to the Go library; they are a parameter of the model, the function
  \<open>U\<close> from runes to runes, and every fact below holds for every such function.
\<close>

type_synonym caseTable = "nat \<Rightarrow> nat"

definition unicode_ToLower :: "caseTable \<Rightarrow> nat \<Rightarrow> nat" where
  "unicode_ToLower U r =
     (if r \<le> 0x7F then (if 0x41 \<le> r \<and> r \<le> 0x5A then r + 32 else r)
      else U r)"

text \<open>
  \<^verbatim>\<open>strings.ToLower\<close>: a string of ASCII bytes only is mapped byte by byte. Any
  other string goes through \<^verbatim>\<open>strings.Map\<close>: each rune is decoded, mapped and
  encoded again, so a byte that starts no valid encoding comes out as \<open>U+FFFD\<close>.
\<close>

definition toLowerChar :: "char \<Rightarrow> char" where
  "toLowerChar c = (case map_of (zip upperChars lowerChars) c of Some l \<Rightarrow> l | None \<Rightarrow> c)"

definition ToLower :: "caseTable \<Rightarrow> string \<Rightarrow> string" where
  "ToLower U s =
     (if list_all (\<lambda>c. (of_char c :: nat) < 0x80) s then map toLowerChar s
      else concat (map (\<lambda>r. EncodeRune (unicode_ToLower U r)) (runes s)))"

text \<open>\<^verbatim>\<open>strings.HasPrefix\<close> and \<^verbatim>\<open>strings.Contains\<close>: substring search.\<close>

fun HasPrefix :: "string \<Rightarrow> string \<Rightarrow> bool" where
  "HasPrefix s [] = True"
| "HasPrefix [] (p # ps) = False"
| "HasPrefix (c # cs) (p # ps) = (c = p \<and> HasPrefix cs ps)"

fun Contains :: "string \<Rightarrow> string \<Rightarrow> bool" where
  "Contains [] p = (p = [])"
| "Contains (c # cs) p = (HasPrefix (c # cs) p \<or> Contains cs p)"

text \<open>
  \<^verbatim>\<open>strings.TrimSpace\<close> removes leading and trailing white space. The ASCII white
  space characters are tab, line feed, vertical tab, form feed, carriage return
  and space.
\<close>

definition asciiSpace :: string where
  "asciiSpace = [CHR 0x09, CHR 0x0A, CHR 0x0B, CHR 0x0C, CHR 0x0D, CHR '' '']"

definition TrimSpace :: "string \<Rightarrow> string" where
  "TrimSpace s =
     rev (dropWhile (\<lambda>c. c \<in> set asciiSpace) (rev (dropWhile (\<lambda>c. c \<in> set asciiSpace) s)))"

section \<open>Regular expressions\<close>

text \<open>
  The five expressions of the program use character classes, concatenation and the
  greedy operators \<open>?\<close>, \<open>+\<close> and \<open>{n,}\<close>. \<open>Rep n r\<close> is \<open>r{n,}\<close>, so \<open>Rep 0 r\<close> is
  \<open>r*\<close> and \<open>Rep 1 r\<close> is \<open>r+\<close>.

  \<open>ms r s\<close> lists what is left of \<open>s\<close> after each way \<open>r\<close> can match a prefix of \<open>s\<close>,
  in the order of preference of Go's \<^verbatim>\<open>regexp\<close> package (leftmost-first: a greedy
  operator prefers one more iteration). The head of the list is the match that
  \<^verbatim>\<open>regexp\<close> reports at this position.
\<close>

datatype re =
    Eps
  | In "char list"
  | NotIn "char list"
  | Cat re re
  | Opt re
  | Rep nat re

function ms :: "re \<Rightarrow> string \<Rightarrow> string list" where
  "ms Eps s = [s]"
| "ms (In cs) [] = []"
| "ms (In cs) (c # t) = (if c \<in> set cs then [t] else [])"
| "ms (NotIn cs) [] = []"
| "ms (NotIn cs) (c # t) = (if c \<in> set cs then [] else [t])"
| "ms (Cat a b) s = concat (map (ms b) (ms a s))"
| "ms (Opt a) s = ms a s @ [s]"
| "ms (Rep (Suc n) a) s = concat (map (ms (Rep n a)) (ms a s))"
| "ms (Rep 0 a) s =
     concat (map (ms (Rep 0 a)) (filter (\<lambda>s'. length s' < length s) (ms a s))) @ [s]"
  by pat_completeness auto
termination
  by (relation "inv_image (less_than <*lex*> less_than <*lex*> less_than)
        (\<lambda>(r, s). (size r, (case r of Rep n a \<Rightarrow> n | _ \<Rightarrow> 0), length s))") auto

declare ms.simps(9) [simp del]

definition lit :: "string \<Rightarrow> re" where
  "lit s = foldr (\<lambda>c r. Cat (In [c]) r) s Eps"

text \<open>\<^verbatim>\<open>\s\<close> is the class \<^verbatim>\<open>[\t\n\f\r ]\<close>; \<^verbatim>\<open>\d\<close> is \<^verbatim>\<open>[0-9]\<close>.\<close>

definition reSpace :: string where
  "reSpace = [CHR 0x09, CHR 0x0A, CHR 0x0C, CHR 0x0D, CHR '' '']"

definition urlRegex :: re where
  "urlRegex = Cat (lit ''http'') (Cat (Opt (In ''s'')) (Cat (lit ''://'') (Rep 1 (NotIn reSpace))))"

definition emailRegex :: re where
  "emailRegex =
     Cat (Rep 1 (In (lowerChars @ upperChars @ digitChars @ ''._%+-'')))
       (Cat (lit ''@'')
         (Cat (Rep 1 (In (lowerChars @ upperChars @ digitChars @ ''.-'')))
           (Cat (lit ''.'') (Rep 2 (In (lowerChars @ upperChars))))))"

definition phoneRegex :: re where
  "phoneRegex =
     Cat (Opt (In ''+''))
       (Cat (In digitChars)
         (Cat (Rep 7 (In (digitChars @ reSpace @ ''-''))) (In digitChars)))"

definition nonTextRegex :: re where
  "nonTextRegex = NotIn (lowerChars @ digitChars @ reSpace)"

definition spaceRegex :: re where
  "spaceRegex = Rep 1 (In reSpace)"

text \<open>
  \<^verbatim>\<open>ReplaceAllString\<close> scans the source from the left; where the expression matches
  it writes the replacement and goes on after the match, elsewhere it copies one
  character. None of the five expressions matches the empty string; an empty match
  is treated as no match.
\<close>

function ReplaceAllString :: "re \<Rightarrow> string \<Rightarrow> string \<Rightarrow> string" where
  "ReplaceAllString r [] repl = []"
| "ReplaceAllString r (c # t) repl =
     (case ms r (c # t) of
        [] \<Rightarrow> c # ReplaceAllString r t repl
      | s' # _ \<Rightarrow>
          if length s' < Suc (length t) then repl @ ReplaceAllString r s' repl
          else c # ReplaceAllString r t repl)"
  by pat_completeness auto
termination
  by (relation "measure (\<lambda>(r, s, repl). length s)") auto

section \<open>Normalisation\<close>

definition normalizeText :: "caseTable \<Rightarrow> string \<Rightarrow> string" where
  "normalizeText U txt =
     (let t = ToLower U txt;
          t = ReplaceAllString urlRegex t '''';
          t = ReplaceAllString emailRegex t '''';
          t = ReplaceAllString phoneRegex t '''';
          t = ReplaceAllString nonTextRegex t '' '';
          t = ReplaceAllString spaceRegex t '' ''
      in TrimSpace t)"

section \<open>Notions for stating facts about normal forms\<close>

text \<open>
  \<open>matchesAt r s\<close>: the expression matches a non-empty prefix of \<open>s\<close>.
  \<open>hasMatch r s\<close>: it does so at some position of \<open>s\<close>, which is where
  \<^verbatim>\<open>ReplaceAllString\<close> replaces something. \<open>needs c r\<close>: by the shape of \<open>r\<close>, every
  match of \<open>r\<close> holds the character \<open>c\<close>. \<open>canonical t\<close>: \<open>t\<close> is made of lower-case
  letters, digits and single spaces, and neither starts nor ends with a space.
\<close>

definition matchesAt :: "re \<Rightarrow> string \<Rightarrow> bool" where
  "matchesAt r s = (case ms r s of [] \<Rightarrow> False | s' # _ \<Rightarrow> length s' < length s)"

fun hasMatch :: "re \<Rightarrow> string \<Rightarrow> bool" where
  "hasMatch r [] = False"
| "hasMatch r (c # t) = (matchesAt r (c # t) \<or> hasMatch r t)"

fun needs :: "char \<Rightarrow> re \<Rightarrow> bool" where
  "needs c (In cs) = (cs = [c])"
| "needs c (Cat a b) = (needs c a \<or> needs c b)"
| "needs c (Rep (Suc n) a) = needs c a"
| "needs c r = False"

definition canonical :: "string \<Rightarrow> bool" where
  "canonical t \<longleftrightarrow>
     list_all (\<lambda>c. c \<in> set (lowerChars @ digitChars @ '' '')) t
     \<and> \<not> Contains t ''  ''
     \<and> \<not> HasPrefix t '' ''
     \<and> \<not> HasPrefix (rev t) '' ''"

section \<open>SHA-256 and hexadecimal encoding\<close>

text \<open>
  \<^verbatim>\<open>crypto/sha256.Sum256\<close> after FIPS 180-4: the message is padded with the byte
  \<open>0x80\<close>, zero bytes and its length in bits as a 64-bit big-endian number, cut into
  blocks of 64 bytes, and each block is fed to the compression function.
\<close>

text \<open>The round constants, eight for each group of eight rounds.\<close>

definition sha256_K :: "32 word list" where
  "sha256_K = concat
     [
      [0x428a2f98, 0x71374491, 0xb5c0fbcf, 0xe9b5dba5, 0x3956c25b, 0x59f111f1, 0x923f82a4, 0xab1c5ed5],
      [0xd807aa98, 0x12835b01, 0x243185be, 0x550c7dc3, 0x72be5d74, 0x80deb1fe, 0x9bdc06a7, 0xc19bf174],
      [0xe49b69c1, 0xefbe4786, 0x0fc19dc6, 0x240ca1cc, 0x2de92c6f, 0x4a7484aa, 0x5cb0a9dc, 0x76f988da],
      [0x983e5152, 0xa831c66d, 0xb00327c8, 0xbf597fc7, 0xc6e00bf3, 0xd5a79147, 0x06ca6351, 0x14292967],
      [0x27b70a85, 0x2e1b2138, 0x4d2c6dfc, 0x53380d13, 0x650a7354, 0x766a0abb, 0x81c2c92e, 0x92722c85],
      [0xa2bfe8a1, 0xa81a664b, 0xc24b8b70, 0xc76c51a3, 0xd192e819, 0xd6990624, 0xf40e3585, 0x106aa070],
      [0x19a4c116, 0x1e376c08, 0x2748774c, 0x34b0bcb5, 0x391c0cb3, 0x4ed8aa4a, 0x5b9cca4f, 0x682e6ff3],
      [0x748f82ee, 0x78a5636f, 0x84c87814, 0x8cc70208, 0x90befffa, 0xa4506ceb, 0xbef9a3f7, 0xc67178f2]
     ]"

definition sha256_pad :: "8 word list \<Rightarrow> 8 word list" where
  "sha256_pad msg =
     (let l = length msg;
          bits = (word_of_nat (8 * l) :: 64 word)
      in msg @ [0x80] @ replicate ((119 - l mod 64) mod 64) 0
           @ map (\<lambda>i. ucast (drop_bit (8 * (7 - i)) bits)) [0 ..< 8])"

definition be32 :: "8 word list \<Rightarrow> 32 word" where
  "be32 bs = foldl (\<lambda>acc b. push_bit 8 acc OR ucast b) 0 bs"

function chunks :: "nat \<Rightarrow> 'a list \<Rightarrow> 'a list list" where
  "chunks n xs = (if n = 0 \<or> xs = [] then [] else take n xs # chunks n (drop n xs))"
  by pat_completeness auto
termination
  by (relation "measure (\<lambda>(n, xs). length xs)") auto

declare chunks.simps [simp del]

fun sha256_schedule :: "nat \<Rightarrow> 32 word list \<Rightarrow> 32 word list" where
  "sha256_schedule 0 w = w"
| "sha256_schedule (Suc k) w =
     (let t = length w;
          v1 = w ! (t - 2);
          v0 = w ! (t - 15);
          s1 = word_rotr 17 v1 XOR word_rotr 19 v1 XOR drop_bit 10 v1;
          s0 = word_rotr 7 v0 XOR word_rotr 18 v0 XOR drop_bit 3 v0
      in sha256_schedule k (w @ [s1 + w ! (t - 7) + s0 + w ! (t - 16)]))"

type_synonym sha256_state =
  "32 word \<times> 32 word \<times> 32 word \<times> 32 word \<times> 32 word \<times> 32 word \<times> 32 word \<times> 32 word"

fun sha256_round :: "sha256_state \<Rightarrow> 32 word \<times> 32 word \<Rightarrow> sha256_state" where
  "sha256_round (a, b, c, d, e, f, g, h) (k, w) =
     (let t1 = h + (word_rotr 6 e XOR word_rotr 11 e XOR word_rotr 25 e)
                 + ((e AND f) XOR (NOT e AND g)) + k + w;
          t2 = (word_rotr 2 a XOR word_rotr 13 a XOR word_rotr 22 a)
                 + ((a AND b) XOR (a AND c) XOR (b AND c))
      in (t1 + t2, a, b, c, d + t1, e, f, g))"

fun sha256_block :: "sha256_state \<Rightarrow> 8 word list \<Rightarrow> sha256_state" where
  "sha256_block (h0, h1, h2, h3, h4, h5, h6, h7) p =
     (let w = sha256_schedule 48 (map be32 (chunks 4 p));
          (a, b, c, d, e, f, g, h) =
             foldl sha256_round (h0, h1, h2, h3, h4, h5, h6, h7) (zip sha256_K w)
      in (h0 + a, h1 + b, h2 + c, h3 + d, h4 + e, h5 + f, h6 + g, h7 + h))"

definition bytes32 :: "32 word \<Rightarrow> 8 word list" where
  "bytes32 x = [ucast (drop_bit 24 x), ucast (drop_bit 16 x), ucast (drop_bit 8 x), ucast x]"

definition Sum256 :: "8 word list \<Rightarrow> 8 word list" where
  "Sum256 data =
     (case foldl sha256_block
             (0x6a09e667, 0xbb67ae85, 0x3c6ef372, 0xa54ff53a,
              0x510e527f, 0x9b05688c, 0x1f83d9ab, 0x5be0cd19)
             (chunks 64 (sha256_pad data)) of
        (h0, h1, h2, h3, h4, h5, h6, h7) \<Rightarrow>
          concat (map bytes32 [h0, h1, h2, h3, h4, h5, h6, h7]))"

text \<open>\<^verbatim>\<open>hex.EncodeToString\<close>: two lower-case hexadecimal digits for each byte.\<close>

definition hextable :: string where
  "hextable = ''0123456789abcdef''"

definition EncodeToString :: "8 word list \<Rightarrow> string" where
  "EncodeToString src =
     concat (map (\<lambda>v. [hextable ! unat (drop_bit 4 v), hextable ! unat (v AND 0x0f)]) src)"

section \<open>The fingerprint\<close>

definition computeFingerprint :: "caseTable \<Rightarrow> string \<Rightarrow> string" where
  "computeFingerprint U messageText =
     (let normalized = normalizeText U messageText;
          normalized = (if length normalized > 400 then take 400 normalized else normalized);
          hash = Sum256 (map of_char normalized)
      in EncodeToString hash)"

text \<open>
  The fingerprint in the words of the specification: the lower-case hexadecimal
  rendering of the 256-bit hash of the normal form cut to its first 400
  characters. Each byte is written as its two digits to the base 16.
\<close>

definition hexDigit :: "nat \<Rightarrow> char" where
  "hexDigit n = ''0123456789abcdef'' ! n"

definition lowerHex :: "8 word list \<Rightarrow> string" where
  "lowerHex bs = concat (map (\<lambda>b. [hexDigit (unat b div 16), hexDigit (unat b mod 16)]) bs)"

definition fingerprint_spec :: "caseTable \<Rightarrow> string \<Rightarrow> string" where
  "fingerprint_spec U txt = lowerHex (Sum256 (map of_char (take 400 (normalizeText U txt))))"

section \<open>The relevance classifier\<close>

definition internshipKeywords :: "string list" where
  "internshipKeywords = [''intern'', ''internship'', ''trainee'', ''apprentice'']"

definition studentKeywords :: "string list" where
  "studentKeywords =
     [''final year'', ''final-year'', ''student'', ''students only'',
      ''currently pursuing'', ''pursuing degree'', ''campus hiring'',
      ''on campus'', ''college student'']"

definition experienceRejectPatterns :: "string list" where
  "experienceRejectPatterns =
     [''2+ year'', ''3+ year'', ''4+ year'',
      ''minimum 2 year'', ''minimum 3 year'',
      ''2 years experience'', ''3 years experience'',
      ''experienced candidate'', ''experienced only'']"

definition explicitNon2025Patterns :: "string list" where
  "explicitNon2025Patterns =
     [''2024 batch'', ''2023 batch'', ''2022 batch'', ''2021 batch'',
      ''2022-2024'', ''2021-2023'']"

text \<open>The loop of \<^verbatim>\<open>containsAny\<close> returns at the first pattern found.\<close>

fun containsAny :: "string \<Rightarrow> string list \<Rightarrow> bool" where
  "containsAny txt [] = False"
| "containsAny txt (p # ps) = (if Contains txt p then True else containsAny txt ps)"

definition excludes2025 :: "string \<Rightarrow> bool" where
  "excludes2025 txt =
     (if containsAny txt explicitNon2025Patterns then True
      else if Contains txt ''2025'' then False
      else False)"

definition isRelevant :: "caseTable \<Rightarrow> string \<Rightarrow> bool" where
  "isRelevant U messageText =
     (let txt = ToLower U messageText in
      if containsAny txt internshipKeywords then False
      else if containsAny txt studentKeywords then False
      else if containsAny txt experienceRejectPatterns then False
      else if excludes2025 txt then False
      else True)"

section \<open>Environment and number conversion\<close>

text \<open>
  The process environment maps names to values; \<^verbatim>\<open>os.Getenv\<close> returns the empty
  string for a name that is not set.
\<close>

type_synonym env = "string \<rightharpoonup> string"

definition Getenv :: "env \<Rightarrow> string \<Rightarrow> string" where
  "Getenv e k = (case e k of None \<Rightarrow> [] | Some v \<Rightarrow> v)"

text \<open>
  \<^verbatim>\<open>strconv.ParseInt(s, 10, 64)\<close>, after the Go standard library. \<^verbatim>\<open>ParseUint\<close>
  reads the characters from the left into a 64-bit unsigned accumulator. A
  character that is not a digit of the base ends the scan with a syntax error and
  the value 0; an accumulator that would overflow ends the scan with a range error
  and the largest value. \<^verbatim>\<open>ParseInt\<close> takes an optional sign off, returns 0 on a
  syntax error, and on a magnitude that a signed 64-bit integer cannot hold returns
  the nearest bound together with a range error.
\<close>

datatype NumError = ErrSyntax | ErrRange

definition digitOf :: "char \<Rightarrow> nat option" where
  "digitOf c =
     (if c \<in> set digitChars then Some (of_char c - of_char CHR ''0'')
      else if toLowerChar c \<in> set lowerChars
        then Some (of_char (toLowerChar c) - of_char CHR ''a'' + 10)
      else None)"

fun ParseUint_loop :: "64 word \<Rightarrow> string \<Rightarrow> 64 word \<times> NumError option" where
  "ParseUint_loop n [] = (n, None)"
| "ParseUint_loop n (c # cs) =
     (case digitOf c of
        None \<Rightarrow> (0, Some ErrSyntax)
      | Some d \<Rightarrow>
          if d \<ge> 10 then (0, Some ErrSyntax)
          else if n \<ge> (- 1) div 10 + 1 then (- 1, Some ErrRange)
          else
            let n' = n * 10;
                n1 = n' + of_nat d
            in if n1 < n' \<or> n1 > - 1 then (- 1, Some ErrRange)
               else ParseUint_loop n1 cs)"

definition ParseUint :: "string \<Rightarrow> 64 word \<times> NumError option" where
  "ParseUint s = (if s = [] then (0, Some ErrSyntax) else ParseUint_loop 0 s)"

definition ParseInt :: "string \<Rightarrow> 64 word \<times> NumError option" where
  "ParseInt s0 =
     (if s0 = [] then (0, Some ErrSyntax)
      else
        let neg = (hd s0 = CHR ''-'');
            s = (if hd s0 = CHR ''+'' \<or> hd s0 = CHR ''-'' then tl s0 else s0);
            (un, err) = ParseUint s
        in if err = Some ErrSyntax then (0, err)
           else
             let cutoff = (push_bit 63 1 :: 64 word)
             in if \<not> neg \<and> un \<ge> cutoff then (cutoff - 1, Some ErrRange)
                else if neg \<and> un > cutoff then (- cutoff, Some ErrRange)
                else (if neg then - un else un, None))"

definition mustGetPersonalChatID :: "env \<Rightarrow> 64 word" where
  "mustGetPersonalChatID e =
     (let idStr = Getenv e ''PERSONAL_CHAT_ID'';
          (id, _) = ParseInt idStr
      in id)"

text \<open>The verb \<^verbatim>\<open>%d\<close> of \<^verbatim>\<open>fmt.Sprintf\<close>: a signed number in decimal.\<close>

function natDigits :: "nat \<Rightarrow> string" where
  "natDigits n =
     (if n < 10 then [digitChars ! n] else natDigits (n div 10) @ [digitChars ! (n mod 10)])"
  by pat_completeness auto
termination
  by (relation "measure id") auto

declare natDigits.simps [simp del]

definition Sprintf_d :: "int \<Rightarrow> string" where
  "Sprintf_d i = (if i < 0 then CHR ''-'' # natDigits (nat (- i)) else natDigits (nat i))"

text \<open>
  What \<^verbatim>\<open>mustGetPersonalChatID\<close> returns, said without the scanning loop. The value
  of the variable is split into an optional sign, the digits that follow it, and
  the rest. If the digits alone exceed 64 bits the result is the bound of the
  signed range on the side of the sign, whatever the rest is. Otherwise a missing
  digit or a rest that is not empty gives 0, and a number is cut to the signed
  64-bit range.
\<close>

definition digitVal :: "char \<Rightarrow> nat" where
  "digitVal c = of_char c - 48"

definition decimalFrom :: "nat \<Rightarrow> string \<Rightarrow> nat" where
  "decimalFrom n ds = foldl (\<lambda>a c. 10 * a + digitVal c) n ds"

definition chatID_spec :: "string \<Rightarrow> int" where
  "chatID_spec s =
     (let neg = (s \<noteq> [] \<and> hd s = CHR ''-'');
          body = (if s \<noteq> [] \<and> (hd s = CHR ''+'' \<or> hd s = CHR ''-'') then tl s else s);
          ds = takeWhile (\<lambda>c. c \<in> set digitChars) body;
          v = int (decimalFrom 0 ds)
      in if v \<ge> 2 ^ 64 then (if neg then - (2 ^ 63) else 2 ^ 63 - 1)
         else if body = [] \<or> ds \<noteq> body then 0
         else if neg then max (- v) (- (2 ^ 63))
         else min v (2 ^ 63 - 1))"

section \<open>The message store\<close>

record TelegramMessage =
  ChannelID :: int
  ChannelName :: string
  MessageID :: int
  MessageText :: string
  MessageTimestamp :: int
  ReceivedAt :: int
  IsProcessed :: bool
  IsRelevant :: "bool option"
  ProcessedAt :: "int option"
  JobFingerprint :: "string option"
  IsForwarded :: bool

text \<open>
  The collection \<^verbatim>\<open>telegram_messages\<close> is a list of documents under their IDs; the
  document of an ID is the first entry with it. Every call to Firestore can fail:
  each operation takes a flag that says whether the call goes through, and a call
  that fails leaves the collection as it was. Time stamps are numbers.
\<close>

type_synonym collection = "(string \<times> TelegramMessage) list"

datatype error = Unavailable | NotFound | ConfigMissing | DecodeFailed | SendFailed

definition documents :: "collection \<Rightarrow> (string \<times> TelegramMessage) list" where
  "documents st =
     List.map_filter (\<lambda>k. map_option (Pair k) (map_of st k)) (remdups (map fst st))"

definition getFirestoreClient :: "env \<Rightarrow> bool \<Rightarrow> error + unit" where
  "getFirestoreClient e ok =
     (let projectID = Getenv e ''GOOGLE_CLOUD_PROJECT''
      in if projectID = [] then Inl ConfigMissing
         else if ok then Inr () else Inl Unavailable)"

definition storeMessage :: "bool \<Rightarrow> collection \<Rightarrow> string \<Rightarrow> TelegramMessage \<Rightarrow> error + collection" where
  "storeMessage ok st docID msg =
     (if ok then Inr (AList.update docID msg st) else Inl Unavailable)"

definition fetchUnprocessed :: "bool \<Rightarrow> collection \<Rightarrow> nat \<Rightarrow> error + (string \<times> TelegramMessage) list" where
  "fetchUnprocessed ok st limit =
     (if ok then Inr (take limit (filter (\<lambda>(k, m). IsProcessed m = False) (documents st)))
      else Inl Unavailable)"

text \<open>\<^verbatim>\<open>Update\<close> changes the named fields of a document that exists.\<close>

definition updateProcessingResult ::
  "bool \<Rightarrow> int \<Rightarrow> collection \<Rightarrow> string \<Rightarrow> bool \<Rightarrow> string \<Rightarrow> error + collection" where
  "updateProcessingResult ok now st docID isRel fingerprint =
     (if \<not> ok then Inl Unavailable
      else case map_of st docID of
        None \<Rightarrow> Inl NotFound
      | Some m \<Rightarrow>
          Inr (AList.update docID
                 (m\<lparr>IsProcessed := True, IsRelevant := Some isRel,
                    ProcessedAt := Some now, JobFingerprint := Some fingerprint\<rparr>) st))"

definition markForwarded :: "bool \<Rightarrow> collection \<Rightarrow> string \<Rightarrow> error + collection" where
  "markForwarded ok st docID =
     (if \<not> ok then Inl Unavailable
      else case map_of st docID of
        None \<Rightarrow> Inl NotFound
      | Some m \<Rightarrow> Inr (AList.update docID (m\<lparr>IsForwarded := True\<rparr>) st))"

definition isFingerprintForwarded :: "bool \<Rightarrow> collection \<Rightarrow> string \<Rightarrow> error + bool" where
  "isFingerprintForwarded ok st fingerprint =
     (if \<not> ok then Inl Unavailable
      else
        let docs = take 1 (filter (\<lambda>(k, m). JobFingerprint m = Some fingerprint \<and> IsForwarded m = True)
                              (documents st))
        in Inr (length docs > 0))"

section \<open>Sending\<close>

text \<open>
  The state of the system is the collection and the log of the calls to the
  \<^verbatim>\<open>sendMessage\<close> method: the chat, the text, and whether the call was answered with
  status 200.
\<close>

record world =
  store :: collection
  sendLog :: "(64 word \<times> string \<times> bool) list"

definition sendTextMessage :: "bool \<Rightarrow> 64 word \<Rightarrow> string \<Rightarrow> world \<Rightarrow> (error + unit) \<times> world" where
  "sendTextMessage ok chatID txt w =
     (if ok then Inr () else Inl SendFailed, w\<lparr>sendLog := sendLog w @ [(chatID, txt, ok)]\<rparr>)"

definition formatMessage :: "TelegramMessage \<Rightarrow> string" where
  "formatMessage msg =
     [CHR 0xF0, CHR 0x9F, CHR 0x93, CHR 0xA2] @ '' Job Post'' @ [CHR 0x0A, CHR 0x0A]
       @ ''Channel: '' @ ChannelName msg @ [CHR 0x0A, CHR 0x0A] @ MessageText msg"

section \<open>The worker\<close>

text \<open>The outcome of each call that \<^verbatim>\<open>processOne\<close> makes for one document.\<close>

record faults =
  decodeOk :: bool
  updateOk :: bool
  queryOk :: bool
  sendOk :: bool
  markOk :: bool

definition DataTo :: "bool \<Rightarrow> string \<times> TelegramMessage \<Rightarrow> error + TelegramMessage" where
  "DataTo ok doc = (if ok then Inr (snd doc) else Inl DecodeFailed)"

text \<open>
  \<^verbatim>\<open>processOne\<close> drops the results of \<^verbatim>\<open>updateProcessingResult\<close>,
  \<^verbatim>\<open>sendTextMessage\<close> and \<^verbatim>\<open>markForwarded\<close>; it returns early on an error of
  \<^verbatim>\<open>DataTo\<close> and of \<^verbatim>\<open>isFingerprintForwarded\<close> only.
\<close>

definition processOne ::
  "caseTable \<Rightarrow> env \<Rightarrow> int \<Rightarrow> faults \<Rightarrow> world \<Rightarrow> string \<times> TelegramMessage \<Rightarrow> world" where
  "processOne U e now f w doc =
     (case DataTo (decodeOk f) doc of
        Inl err \<Rightarrow> w
      | Inr msg \<Rightarrow>
          let fingerprint = computeFingerprint U (MessageText msg);
              relevant = isRelevant U (MessageText msg);
              w1 = (case updateProcessingResult (updateOk f) now (store w) (fst doc) relevant fingerprint of
                      Inl err \<Rightarrow> w
                    | Inr st \<Rightarrow> w\<lparr>store := st\<rparr>)
          in if \<not> relevant then w1
             else case isFingerprintForwarded (queryOk f) (store w1) fingerprint of
               Inl err \<Rightarrow> w1
             | Inr forwarded \<Rightarrow>
                 if forwarded then w1
                 else
                   let chatID = mustGetPersonalChatID e;
                       w2 = snd (sendTextMessage (sendOk f) chatID (formatMessage msg) w1)
                   in case markForwarded (markOk f) (store w2) (fst doc) of
                        Inl err \<Rightarrow> w2
                      | Inr st \<Rightarrow> w2\<lparr>store := st\<rparr>)"

record Request =
  Method :: string

text \<open>
  \<^verbatim>\<open>http.Error\<close> writes the message and a line feed; \<^verbatim>\<open>w.Write\<close> writes the
  bytes it is given.
\<close>

definition workerHandler ::
  "caseTable \<Rightarrow> env \<Rightarrow> int \<Rightarrow> bool \<Rightarrow> bool \<Rightarrow> (string \<Rightarrow> faults) \<Rightarrow> Request \<Rightarrow> world
     \<Rightarrow> (nat \<times> string) \<times> world" where
  "workerHandler U e now clientOk fetchOk fs r w =
     (if Method r = ''GET'' then ((200, ''worker alive''), w)
      else if Method r \<noteq> ''POST'' then ((405, ''method not allowed'' @ [CHR 0x0A]), w)
      else case getFirestoreClient e clientOk of
        Inl err \<Rightarrow> ((500, ''firestore unavailable'' @ [CHR 0x0A]), w)
      | Inr client \<Rightarrow>
          (case fetchUnprocessed fetchOk (store w) 50 of
             Inl err \<Rightarrow> ((500, ''failed to fetch'' @ [CHR 0x0A]), w)
           | Inr docs \<Rightarrow>
               ((200, ''processed''),
                foldl (\<lambda>w' doc. processOne U e now (fs (fst doc)) w' doc) w docs)))"

text \<open>
  \<open>allOk\<close>: every call for the document goes through. \<open>claimed st fp\<close>: some document
  of the collection carries the fingerprint \<open>fp\<close> and is marked as forwarded.
\<close>

definition allOk :: faults where
  "allOk = \<lparr>decodeOk = True, updateOk = True, queryOk = True, sendOk = True, markOk = True\<rparr>"

definition claimed :: "collection \<Rightarrow> string \<Rightarrow> bool" where
  "claimed st fp = list_ex (\<lambda>(k, m). JobFingerprint m = Some fp \<and> IsForwarded m) (documents st)"

section \<open>The webhook\<close>

record Chat =
  ID :: int
  Title :: string
  Type :: string

record Photo =
  FileID :: string

record Document =
  FileID_doc :: string
  FileName :: string
  MimeType :: string

record TelegramMessageRaw =
  MessageID_raw :: int
  Date :: int
  Text :: string
  Caption :: string
  Chat :: Chat
  Photo :: "Photo list"
  Document :: "Document option"

record TelegramUpdate =
  UpdateID :: int
  Message :: "TelegramMessageRaw option"
  ChannelPost :: "TelegramMessageRaw option"

text \<open>
  A request to the webhook carries its method and what the JSON decoder makes of
  its body: an update, or nothing when the body is malformed. The handler returns
  the status it writes and the new state.
\<close>

record WebhookRequest = Request +
  Body :: "TelegramUpdate option"

definition telegramWebhookHandler ::
  "env \<Rightarrow> int \<Rightarrow> bool \<Rightarrow> bool \<Rightarrow> WebhookRequest \<Rightarrow> world \<Rightarrow> nat \<times> world" where
  "telegramWebhookHandler e now clientOk writeOk r w =
     (if Method r \<noteq> ''POST'' then (200, w)
      else case Body r of
        None \<Rightarrow> (200, w)
      | Some update \<Rightarrow>
          (case (case Message update of
                   Some m \<Rightarrow> Some m
                 | None \<Rightarrow> ChannelPost update) of
             None \<Rightarrow> (200, w)
           | Some msg \<Rightarrow>
               let hasMedia = (Document msg \<noteq> None \<or> length (Photo msg) > 0);
                   hasText = (Text msg \<noteq> [] \<or> Caption msg \<noteq> [])
               in if \<not> hasText \<and> \<not> hasMedia then (200, w)
                  else
                    let docID = Sprintf_d (ID (Chat msg)) @ ''_'' @ Sprintf_d (MessageID_raw msg)
                    in case getFirestoreClient e clientOk of
                         Inl err \<Rightarrow> (200, w)
                       | Inr client \<Rightarrow>
                           let firestoreMsg =
                                 \<lparr>ChannelID = ID (Chat msg),
                                  ChannelName = Title (Chat msg),
                                  MessageID = MessageID_raw msg,
                                  MessageText = Text msg,
                                  MessageTimestamp = Date msg,
                                  ReceivedAt = now,
                                  IsProcessed = False,
                                  IsRelevant = None,
                                  ProcessedAt = None,
                                  JobFingerprint = None,
                                  IsForwarded = False\<rparr>
                           in case storeMessage writeOk (store w) docID firestoreMsg of
                                Inl err \<Rightarrow> (200, w)
                              | Inr st \<Rightarrow> (200, w\<lparr>store := st\<rparr>)))"

section \<open>Example data\<close>

text \<open>
  Two posts of different channels whose texts differ in letter case and punctuation
  only, as the webhook stores them, and the collection that holds both.
\<close>

definition msgA :: TelegramMessage where
  "msgA =
     \<lparr>ChannelID = - 1001, ChannelName = ''jobs'', MessageID = 7,
      MessageText = ''Backend engineer role, apply now, 2025 batch'',
      MessageTimestamp = 1700000000, ReceivedAt = 1700000001,
      IsProcessed = False, IsRelevant = None, ProcessedAt = None,
      JobFingerprint = None, IsForwarded = False\<rparr>"

definition msgB :: TelegramMessage where
  "msgB =
     \<lparr>ChannelID = - 1002, ChannelName = ''careers'', MessageID = 9,
      MessageText = ''BACKEND engineer role -- apply now: 2025 batch!'',
      MessageTimestamp = 1700000100, ReceivedAt = 1700000101,
      IsProcessed = False, IsRelevant = None, ProcessedAt = None,
      JobFingerprint = None, IsForwarded = False\<rparr>"

definition storeAB :: collection where
  "storeAB = [(''-1001_7'', msgA), (''-1002_9'', msgB)]"

text \<open>
  A third post, of an earlier run: it is processed and forwarded, and its fingerprint
  is the one of the two posts above (SHA-256 of
  \<open>backend engineer role apply now 2025 batch\<close>).
\<close>

definition msgC :: TelegramMessage where
  "msgC =
     \<lparr>ChannelID = - 1003, ChannelName = ''hiring'', MessageID = 1,
      MessageText = ''Backend Engineer role / apply now / 2025 batch'',
      MessageTimestamp = 1690000000, ReceivedAt = 1690000001,
      IsProcessed = True, IsRelevant = Some True, ProcessedAt = Some 1690000002,
      JobFingerprint = Some ''6dfcb82ef4030ebf1f47b11dc3a296c6a0865e0cd8dbb7ef2f74051cd6ee4cea'',
      IsForwarded = True\<rparr>"

definition storeABC :: collection where
  "storeABC = storeAB @ [(''-1003_1'', msgC)]"

text \<open>
  Two texts of 401 characters whose normal forms (401 characters each) differ in the
  last character only, so behind the cut of the fingerprint.
\<close>

definition repostX :: string where
  "repostX = concat (replicate 100 ''Abc '') @ ''x''"

definition repostY :: string where
  "repostY = concat (replicate 100 ''abc '') @ ''y''"

definition envOK :: env where
  "envOK = [''GOOGLE_CLOUD_PROJECT'' \<mapsto> ''p'', ''PERSONAL_CHAT_ID'' \<mapsto> ''42'']"

text \<open>A channel post with a photo and a caption and no text.\<close>

definition photoPost :: TelegramMessageRaw where
  "photoPost =
     \<lparr>MessageID_raw = 7, Date = 1700000000, Text = [], Caption = ''We are hiring'',
      Chat = \<lparr>ID = - 1001, Title = ''jobs'', Type = ''channel''\<rparr>,
      Photo = [\<lparr>FileID = ''f1''\<rparr>], Document = None\<rparr>"

definition photoRequest :: WebhookRequest where
  "photoRequest =
     \<lparr>Method = ''POST'',
      Body = Some \<lparr>UpdateID = 1, Message = None, ChannelPost = Some photoPost\<rparr>\<rparr>"

section \<open>Facts about lower-casing\<close>

lemma ToLower_ascii:
  "list_all (\<lambda>c. (of_char c :: nat) < 0x80) s \<Longrightarrow> ToLower U s = map toLowerChar s"
  by (simp add: ToLower_def)

lemma runes_ascii_Cons:
  assumes "(of_char c :: nat) < 0x80"
  shows "runes (c # t) = of_char c # runes t"
  using assms by (simp add: runes.simps(2) DecodeRuneInString_def)

lemma runes_ascii_word:
  "list_all (\<lambda>c. (of_char c :: nat) < 0x80) w \<Longrightarrow> runes (w @ b) = map of_char w @ runes b"
  by (induction w) (simp_all add: runes_ascii_Cons)

lemma DecodeRune_width:
  assumes "DecodeRuneInString s = (r, w)"
  shows "w \<le> 4"
    and "2 \<le> w \<Longrightarrow> 1 < length s \<and> (0x80 :: nat) \<le> of_char (s ! 1)"
    and "3 \<le> w \<Longrightarrow> 2 < length s \<and> (0x80 :: nat) \<le> of_char (s ! 2)"
    and "4 \<le> w \<Longrightarrow> 3 < length s \<and> (0x80 :: nat) \<le> of_char (s ! 3)"
  using assms
  unfolding DecodeRuneInString_def Let_def leadByte_def
  by (auto split: if_splits option.splits prod.splits)

lemma DecodeRune_continuation:
  assumes d: "DecodeRuneInString s = (r, w)" and "0 < i" and "i < w"
  shows "i < length s \<and> (0x80 :: nat) \<le> of_char (s ! i)"
proof -
  have "i = 1 \<or> i = 2 \<or> i = 3" using DecodeRune_width(1) [OF d] assms(2,3) by arith
  then show ?thesis
    using DecodeRune_width(2-4) [OF d] assms(3) by auto
qed

lemma runes_before_ascii:
  assumes c: "(of_char c :: nat) < 0x80"
  shows "\<exists>ra. runes (a @ c # t) = ra @ runes (c # t)"
proof (induction a rule: measure_induct_rule [where f = length])
  case (less a)
  show ?case
  proof (cases a)
    case Nil
    then show ?thesis by simp
  next
    case (Cons x a')
    obtain r w where d: "DecodeRuneInString (x # a' @ c # t) = (r, w)"
      by (cases "DecodeRuneInString (x # a' @ c # t)") auto
    have le: "w - 1 \<le> length a'"
    proof (rule ccontr)
      assume "\<not> w - 1 \<le> length a'"
      then have i: "0 < Suc (length a')" "Suc (length a') < w" by arith+
      from DecodeRune_continuation [OF d i]
      have "(0x80 :: nat) \<le> of_char ((x # a' @ c # t) ! Suc (length a'))" by simp
      then show False using c by (simp add: nth_append)
    qed
    then have dr: "drop (w - 1) (a' @ c # t) = drop (w - 1) a' @ c # t" by simp
    have "length (drop (w - 1) a') < length a" using Cons by simp
    from less.IH [OF this] obtain ra where
      ra: "runes (drop (w - 1) a' @ c # t) = ra @ runes (c # t)" by blast
    have "runes (a @ c # t) = r # runes (drop (w - 1) (a' @ c # t))"
      using d by (simp add: Cons runes.simps(2))
    also have "\<dots> = (r # ra) @ runes (c # t)"
      by (simp only: dr ra append_Cons)
    finally show ?thesis by blast
  qed
qed

lemma runes_around_ascii_word:
  assumes "list_all (\<lambda>c. (of_char c :: nat) < 0x80) w" and "w \<noteq> []"
  shows "\<exists>ra. runes (a @ w @ b) = ra @ map of_char w @ runes b"
proof (cases w)
  case Nil
  then show ?thesis using assms(2) by simp
next
  case (Cons c w')
  then have c: "(of_char c :: nat) < 0x80" using assms by simp
  from runes_before_ascii [OF c, of a "w' @ b"] obtain ra where
    "runes (a @ c # w' @ b) = ra @ runes (c # w' @ b)" by blast
  then have "runes (a @ w @ b) = ra @ runes (w @ b)" by (simp add: Cons)
  then show ?thesis using runes_ascii_word [OF assms(1)] by auto
qed

lemma lower_ascii_rune_all:
  "list_all (\<lambda>n. EncodeRune (unicode_ToLower U n) = [toLowerChar (char_of n)]) [0 ..< 128]"
  by code_simp

lemma lower_ascii_rune:
  assumes "(of_char c :: nat) < 0x80"
  shows "EncodeRune (unicode_ToLower U (of_char c)) = [toLowerChar c]"
proof -
  have "(of_char c :: nat) \<in> set [0 ..< 128]" using assms by simp
  then have "EncodeRune (unicode_ToLower U (of_char c)) = [toLowerChar (char_of (of_char c :: nat))]"
    using lower_ascii_rune_all [of U] unfolding list_all_iff by blast
  then show ?thesis by simp
qed

lemma lower_ascii_word:
  "list_all (\<lambda>c. (of_char c :: nat) < 0x80) w \<Longrightarrow>
     concat (map (\<lambda>r. EncodeRune (unicode_ToLower U r)) (map of_char w)) = map toLowerChar w"
  by (induction w) (simp_all add: lower_ascii_rune)

lemma ToLower_other:
  "\<not> list_all (\<lambda>c. (of_char c :: nat) < 0x80) s \<Longrightarrow>
     ToLower U s = concat (map (\<lambda>r. EncodeRune (unicode_ToLower U r)) (runes s))"
  by (simp add: ToLower_def)

lemma ToLower_keeps_word:
  assumes w: "list_all (\<lambda>c. (of_char c :: nat) < 0x80) w" and ne: "w \<noteq> []"
  shows "\<exists>a' b'. ToLower U (a @ w @ b) = a' @ map toLowerChar w @ b'"
proof (cases "list_all (\<lambda>c. (of_char c :: nat) < 0x80) (a @ w @ b)")
  case True
  have "ToLower U (a @ w @ b) = map toLowerChar a @ map toLowerChar w @ map toLowerChar b"
    unfolding ToLower_ascii [OF True] by simp
  then show ?thesis by blast
next
  case False
  obtain ra where ra: "runes (a @ w @ b) = ra @ map of_char w @ runes b"
    using runes_around_ascii_word [OF w ne] by blast
  let ?f = "\<lambda>r. EncodeRune (unicode_ToLower U r)"
  have "ToLower U (a @ w @ b) = concat (map ?f (runes (a @ w @ b)))"
    by (rule ToLower_other [OF False])
  also have "\<dots> = concat (map ?f ra) @ concat (map ?f (map of_char w)) @ concat (map ?f (runes b))"
    unfolding ra by simp
  also have "\<dots> = concat (map ?f ra) @ map toLowerChar w @ concat (map ?f (runes b))"
    unfolding lower_ascii_word [OF w] ..
  finally show ?thesis by blast
qed

lemma ascii_upperChars: "list_all (\<lambda>c. (of_char c :: nat) < 0x80) upperChars"
  by (simp add: upperChars_def)

lemma toLowerChar_ascii:
  assumes "(of_char (toLowerChar c) :: nat) < 0x80"
  shows "(of_char c :: nat) < 0x80"
proof (cases "map_of (zip upperChars lowerChars) c")
  case None
  then show ?thesis using assms by (simp add: toLowerChar_def)
next
  case (Some l)
  then have "c \<in> set upperChars"
    by (meson map_of_SomeD set_zip_leftD)
  then show ?thesis using ascii_upperChars unfolding list_all_iff by blast
qed

lemma lowered_ascii_word:
  assumes "list_all (\<lambda>c. (of_char c :: nat) < 0x80) (map toLowerChar w)"
  shows "list_all (\<lambda>c. (of_char c :: nat) < 0x80) w"
  using assms unfolding list_all_iff by (auto intro: toLowerChar_ascii)

section \<open>Facts about substring search\<close>

lemma HasPrefix_append: "HasPrefix (p @ s) p"
  by (induction p) auto

lemma HasPrefix_iff: "HasPrefix s p \<longleftrightarrow> (\<exists>b. s = p @ b)"
  by (induction s p rule: HasPrefix.induct) auto

lemma Contains_iff: "Contains s p \<longleftrightarrow> (\<exists>a b. s = a @ p @ b)"
proof (induction s)
  case Nil
  then show ?case by auto
next
  case (Cons c cs)
  show ?case
  proof
    assume "Contains (c # cs) p"
    then consider "HasPrefix (c # cs) p" | "Contains cs p" by auto
    then show "\<exists>a b. c # cs = a @ p @ b"
    proof cases
      case 1
      then obtain b where "c # cs = p @ b" by (auto simp: HasPrefix_iff)
      then have "c # cs = [] @ p @ b" by simp
      then show ?thesis by blast
    next
      case 2
      then obtain a b where "cs = a @ p @ b" using Cons.IH by auto
      then have "c # cs = (c # a) @ p @ b" by simp
      then show ?thesis by blast
    qed
  next
    assume "\<exists>a b. c # cs = a @ p @ b"
    then obtain a b where ab: "c # cs = a @ p @ b" by auto
    show "Contains (c # cs) p"
    proof (cases a)
      case Nil
      with ab have "HasPrefix (c # cs) p" by (simp add: HasPrefix_append)
      then show ?thesis by simp
    next
      case (Cons x a')
      with ab have "cs = a' @ p @ b" by simp
      then have "Contains cs p" using Cons.IH by auto
      then show ?thesis by simp
    qed
  qed
qed

lemma containsAny_iff: "containsAny txt ps \<longleftrightarrow> (\<exists>p \<in> set ps. Contains txt p)"
  by (induction ps) auto

section \<open>Claims about the classifier\<close>

text \<open>
  C7. A text that contains the word "intern" in any letter casing (a substring \<open>w\<close>
  of ASCII letters whose lower-cased form is \<open>intern\<close>) is classified as not
  relevant, whatever bytes surround the word and whatever the case table does above
  ASCII: the first rule of \<open>isRelevant\<close> fires.
\<close>

theorem C7_intern_rejected:
  assumes "messageText = a @ w @ b" and "map toLowerChar w = ''intern''"
  shows "\<not> isRelevant U messageText"
proof -
  have "list_all (\<lambda>c. (of_char c :: nat) < 0x80) (map toLowerChar w)"
    unfolding assms(2) by simp
  then have w: "list_all (\<lambda>c. (of_char c :: nat) < 0x80) w"
    by (rule lowered_ascii_word)
  have ne: "w \<noteq> []" using assms(2) by auto
  obtain a' b' where "ToLower U (a @ w @ b) = a' @ map toLowerChar w @ b'"
    using ToLower_keeps_word [OF w ne] by blast
  then have "ToLower U messageText = a' @ ''intern'' @ b'"
    using assms by simp
  then have "Contains (ToLower U messageText) ''intern''"
    unfolding Contains_iff by blast
  then have "containsAny (ToLower U messageText) internshipKeywords"
    by (simp add: internshipKeywords_def)
  then show ?thesis
    by (simp add: isRelevant_def)
qed

theorem C7_intern_rejected_witness:
  "\<forall>U. ''Hiring INTERNs for 2025'' = ''Hiring '' @ ''INTERN'' @ ''s for 2025''
   \<and> map toLowerChar ''INTERN'' = ''intern''
   \<and> \<not> isRelevant U ''Hiring INTERNs for 2025''"
proof
  fix U
  have h1: "''Hiring INTERNs for 2025'' = ''Hiring '' @ ''INTERN'' @ ''s for 2025''"
    by simp
  have h2: "map toLowerChar ''INTERN'' = ''intern''"
    by (simp add: toLowerChar_def upperChars_def lowerChars_def)
  from C7_intern_rejected [OF h1 h2] h1 h2
  show "''Hiring INTERNs for 2025'' = ''Hiring '' @ ''INTERN'' @ ''s for 2025''
   \<and> map toLowerChar ''INTERN'' = ''intern''
   \<and> \<not> isRelevant U ''Hiring INTERNs for 2025''" by blast
qed

text \<open>
  The same rule on a word spelled with a letter outside ASCII: with a case table that
  sends U+0130 (bytes C4 B0) to \<open>i\<close> and U+212A (bytes E2 84 AA) to \<open>k\<close>, as Go's
  table does, the lower-cased text holds \<open>intern\<close> and the message is rejected.
\<close>

lemma ToLower_dotted_capital:
  "ToLower (\<lambda>r. if r = 0x130 then 0x69 else if r = 0x212A then 0x6B else r)
     ([CHR 0xC4, CHR 0xB0] @ ''NTERN wanted'') = ''intern wanted''
   \<and> ToLower (\<lambda>r. if r = 0x130 then 0x69 else if r = 0x212A then 0x6B else r)
     ([CHR 0xE2, CHR 0x84, CHR 0xAA] @ ''ING'') = ''king''
   \<and> \<not> isRelevant (\<lambda>r. if r = 0x130 then 0x69 else if r = 0x212A then 0x6B else r)
     ([CHR 0xC4, CHR 0xB0] @ ''NTERN wanted'')"
  by code_simp

text \<open>
  C6. A text whose lower-cased form contains no internship keyword, no student
  keyword, no experience pattern, no explicit non-2025 pattern and not the literal
  \<open>2025\<close> is classified as relevant: a text with no cohort year at all is accepted.
\<close>

theorem C6_permissive_default:
  assumes "\<forall>p \<in> set internshipKeywords. \<not> Contains (ToLower U messageText) p"
    and "\<forall>p \<in> set studentKeywords. \<not> Contains (ToLower U messageText) p"
    and "\<forall>p \<in> set experienceRejectPatterns. \<not> Contains (ToLower U messageText) p"
    and "\<forall>p \<in> set explicitNon2025Patterns. \<not> Contains (ToLower U messageText) p"
    and "\<not> Contains (ToLower U messageText) ''2025''"
  shows "isRelevant U messageText"
  using assms by (simp add: isRelevant_def excludes2025_def containsAny_iff)

lemmas classifier_eval =
  ToLower_def toLowerChar_def upperChars_def lowerChars_def
  internshipKeywords_def studentKeywords_def experienceRejectPatterns_def
  explicitNon2025Patterns_def

theorem C6_permissive_default_witness:
  "\<forall>U. (list_all (\<lambda>p. \<not> Contains (ToLower U ''Backend engineer, apply now'') p)
      (internshipKeywords @ studentKeywords @ experienceRejectPatterns
         @ explicitNon2025Patterns))
   \<and> \<not> Contains (ToLower U ''Backend engineer, apply now'') ''2025''
   \<and> isRelevant U ''Backend engineer, apply now''"
proof
  fix U
  have h1: "\<forall>p \<in> set internshipKeywords. \<not> Contains (ToLower U ''Backend engineer, apply now'') p"
    by (simp add: classifier_eval)
  have h2: "\<forall>p \<in> set studentKeywords. \<not> Contains (ToLower U ''Backend engineer, apply now'') p"
    by (simp add: classifier_eval)
  have h3: "\<forall>p \<in> set experienceRejectPatterns. \<not> Contains (ToLower U ''Backend engineer, apply now'') p"
    by (simp add: classifier_eval)
  have h4: "\<forall>p \<in> set explicitNon2025Patterns. \<not> Contains (ToLower U ''Backend engineer, apply now'') p"
    by (simp add: classifier_eval)
  have h5: "\<not> Contains (ToLower U ''Backend engineer, apply now'') ''2025''"
    by (simp add: classifier_eval)
  have "isRelevant U ''Backend engineer, apply now''"
    by (rule C6_permissive_default [OF h1 h2 h3 h4 h5])
  with h1 h2 h3 h4 h5
  show "(list_all (\<lambda>p. \<not> Contains (ToLower U ''Backend engineer, apply now'') p)
      (internshipKeywords @ studentKeywords @ experienceRejectPatterns
         @ explicitNon2025Patterns))
   \<and> \<not> Contains (ToLower U ''Backend engineer, apply now'') ''2025''
   \<and> isRelevant U ''Backend engineer, apply now''"
    by (auto simp: list_all_iff)
qed

text \<open>
  C8. The non-2025 rule is exactly membership of the six listed patterns: the test
  for the literal \<open>2025\<close> inside \<open>excludes2025\<close> never changes its result. A text that
  mentions \<open>2026 batch\<close> and carries no listed reject signal is classified as relevant.
\<close>

theorem C8_excludes2025_is_fixed_list:
  "(excludes2025 txt \<longleftrightarrow>
      Contains txt ''2024 batch'' \<or> Contains txt ''2023 batch'' \<or>
      Contains txt ''2022 batch'' \<or> Contains txt ''2021 batch'' \<or>
      Contains txt ''2022-2024'' \<or> Contains txt ''2021-2023'')
   \<and> excludes2025 txt = containsAny txt explicitNon2025Patterns
   \<and> (Contains (ToLower U messageText) ''2026 batch''
        \<and> list_all (\<lambda>p. \<not> Contains (ToLower U messageText) p)
             (internshipKeywords @ studentKeywords @ experienceRejectPatterns
                @ explicitNon2025Patterns)
        \<longrightarrow> isRelevant U messageText)"
proof -
  have a: "excludes2025 txt = containsAny txt explicitNon2025Patterns"
    by (simp add: excludes2025_def)
  have b: "containsAny txt explicitNon2025Patterns \<longleftrightarrow>
      Contains txt ''2024 batch'' \<or> Contains txt ''2023 batch'' \<or>
      Contains txt ''2022 batch'' \<or> Contains txt ''2021 batch'' \<or>
      Contains txt ''2022-2024'' \<or> Contains txt ''2021-2023''"
    unfolding explicitNon2025Patterns_def containsAny.simps by auto
  have c: "isRelevant U messageText"
    if "list_all (\<lambda>p. \<not> Contains (ToLower U messageText) p)
             (internshipKeywords @ studentKeywords @ experienceRejectPatterns
                @ explicitNon2025Patterns)"
    using that by (simp add: isRelevant_def excludes2025_def containsAny_iff list_all_iff)
  from a b c show ?thesis by blast
qed

theorem C8_excludes2025_is_fixed_list_witness:
  "\<forall>U. \<not> excludes2025 ''freshers of 2026 batch, not 2025''
   \<and> excludes2025 ''only 2024 batch''
   \<and> Contains (ToLower U ''Hiring 2026 Batch freshers'') ''2026 batch''
   \<and> list_all (\<lambda>p. \<not> Contains (ToLower U ''Hiring 2026 Batch freshers'') p)
             (internshipKeywords @ studentKeywords @ experienceRejectPatterns
                @ explicitNon2025Patterns)
   \<and> isRelevant U ''Hiring 2026 Batch freshers''"
proof
  fix U
  have h1: "Contains (ToLower U ''Hiring 2026 Batch freshers'') ''2026 batch''"
    by (simp add: classifier_eval)
  have h2: "list_all (\<lambda>p. \<not> Contains (ToLower U ''Hiring 2026 Batch freshers'') p)
             (internshipKeywords @ studentKeywords @ experienceRejectPatterns
                @ explicitNon2025Patterns)"
    by (simp add: classifier_eval)
  have h3: "\<not> Contains ''freshers of 2026 batch, not 2025'' p"
    if "p \<in> set explicitNon2025Patterns" for p
    using that by (auto simp: classifier_eval)
  have h4: "Contains ''only 2024 batch'' ''2024 batch''"
    by simp
  note t1 = C8_excludes2025_is_fixed_list
    [of "''freshers of 2026 batch, not 2025''" U "''Hiring 2026 Batch freshers''"]
  note t2 = C8_excludes2025_is_fixed_list
    [of "''only 2024 batch''" U "''Hiring 2026 Batch freshers''"]
  have r1: "\<not> excludes2025 ''freshers of 2026 batch, not 2025''"
    using t1 h3 by (simp add: containsAny_iff)
  have r2: "excludes2025 ''only 2024 batch''"
    using t2 h4 by blast
  have r3: "isRelevant U ''Hiring 2026 Batch freshers''"
    using t1 h1 h2 by blast
  from r1 r2 r3 h1 h2
  show "\<not> excludes2025 ''freshers of 2026 batch, not 2025''
   \<and> excludes2025 ''only 2024 batch''
   \<and> Contains (ToLower U ''Hiring 2026 Batch freshers'') ''2026 batch''
   \<and> list_all (\<lambda>p. \<not> Contains (ToLower U ''Hiring 2026 Batch freshers'') p)
             (internshipKeywords @ studentKeywords @ experienceRejectPatterns
                @ explicitNon2025Patterns)
   \<and> isRelevant U ''Hiring 2026 Batch freshers''" by blast
qed

section \<open>Facts about the store\<close>

lemma set_documents: "set (documents st) = {(k, m). map_of st k = Some m}"
proof -
  have "(k, m) \<in> set (documents st) \<longleftrightarrow> map_of st k = Some m" for k m
  proof
    assume "(k, m) \<in> set (documents st)"
    then show "map_of st k = Some m"
      by (auto simp: documents_def List.map_filter_def)
  next
    assume a: "map_of st k = Some m"
    then have "k \<in> set (map fst st)"
      by (metis domI dom_map_of_conv_image_fst set_map)
    with a show "(k, m) \<in> set (documents st)"
      by (force simp: documents_def List.map_filter_def)
  qed
  then show ?thesis by auto
qed

lemma take1_filter_nonempty: "(0 < length (take 1 (filter P xs))) = (\<exists>x \<in> set xs. P x)"
  by (induction xs) auto

lemma claimed_iff:
  "claimed st fp \<longleftrightarrow>
     (\<exists>k m. map_of st k = Some m \<and> JobFingerprint m = Some fp \<and> IsForwarded m)"
  unfolding claimed_def list_ex_iff set_documents by auto

lemma isFingerprintForwarded_ok:
  "isFingerprintForwarded True st fp =
     Inr (\<exists>k m. map_of st k = Some m \<and> JobFingerprint m = Some fp \<and> IsForwarded m)"
  unfolding isFingerprintForwarded_def Let_def take1_filter_nonempty set_documents
  by auto


lemma updateProcessingResult_ok:
  assumes "map_of st k = Some m"
  shows "\<exists>st'. updateProcessingResult True now st k rel fp = Inr st'
           \<and> map_of st' = (map_of st)(k \<mapsto> m\<lparr>IsProcessed := True, IsRelevant := Some rel,
                                             ProcessedAt := Some now, JobFingerprint := Some fp\<rparr>)"
  using assms by (simp add: updateProcessingResult_def update_conv')

lemma markForwarded_ok:
  assumes "map_of st k = Some m"
  shows "\<exists>st'. markForwarded True st k = Inr st'
           \<and> map_of st' = (map_of st)(k \<mapsto> m\<lparr>IsForwarded := True\<rparr>)"
  using assms by (simp add: markForwarded_def update_conv')

text \<open>
  A relevant document whose fingerprint nobody holds is sent and marked. The result
  of the send does not enter: the document is marked when the mark goes through.
\<close>

lemma processOne_forwards:
  assumes doc: "map_of (store w) k = Some m0"
    and rel: "isRelevant U (MessageText m)"
    and free: "\<not> claimed (store w) (computeFingerprint U (MessageText m))"
    and nf: "\<not> IsForwarded m0"
    and ok: "decodeOk f" "updateOk f" "queryOk f" "markOk f"
  shows "map_of (store (processOne U e now f w (k, m))) =
           (map_of (store w))(k \<mapsto> m0\<lparr>IsProcessed := True, IsRelevant := Some True,
               ProcessedAt := Some now,
               JobFingerprint := Some (computeFingerprint U (MessageText m)),
               IsForwarded := True\<rparr>)"
    and "sendLog (processOne U e now f w (k, m)) =
           sendLog w @ [(mustGetPersonalChatID e, formatMessage m, sendOk f)]"
proof -
  let ?fp = "computeFingerprint U (MessageText m)"
  let ?m1 = "m0\<lparr>IsProcessed := True, IsRelevant := Some True,
               ProcessedAt := Some now, JobFingerprint := Some ?fp\<rparr>"
  obtain st1 where u: "updateProcessingResult True now (store w) k True ?fp = Inr st1"
    and m1: "map_of st1 = (map_of (store w))(k \<mapsto> ?m1)"
    using updateProcessingResult_ok [OF doc] by blast
  have nc: "\<not> claimed st1 ?fp"
    using free nf unfolding claimed_iff m1 by (auto split: if_splits)
  have q: "isFingerprintForwarded True st1 ?fp = Inr False"
    using nc by (simp add: isFingerprintForwarded_ok claimed_iff)
  have k1: "map_of st1 k = Some ?m1" by (simp add: m1)
  obtain st2 where f: "markForwarded True st1 k = Inr st2"
    and m2: "map_of st2 = (map_of st1)(k \<mapsto> ?m1\<lparr>IsForwarded := True\<rparr>)"
    using markForwarded_ok [OF k1] by blast
  have r: "processOne U e now f w (k, m) =
             w\<lparr>store := st2,
               sendLog := sendLog w @ [(mustGetPersonalChatID e, formatMessage m, sendOk f)]\<rparr>"
    using rel u q f ok
    by (simp add: processOne_def DataTo_def sendTextMessage_def Let_def)
  show "map_of (store (processOne U e now f w (k, m))) =
           (map_of (store w))(k \<mapsto> m0\<lparr>IsProcessed := True, IsRelevant := Some True,
               ProcessedAt := Some now,
               JobFingerprint := Some (computeFingerprint U (MessageText m)),
               IsForwarded := True\<rparr>)"
    by (simp add: r m2 m1)
  show "sendLog (processOne U e now f w (k, m)) =
           sendLog w @ [(mustGetPersonalChatID e, formatMessage m, sendOk f)]"
    by (simp add: r)
qed

text \<open>
  When the update of the classification fails the document keeps its fields, and
  the check, the send and the mark go on all the same.
\<close>

lemma processOne_update_failed:
  assumes doc: "map_of (store w) k = Some m0"
    and rel: "isRelevant U (MessageText m)"
    and free: "\<not> claimed (store w) (computeFingerprint U (MessageText m))"
    and ok: "decodeOk f" "\<not> updateOk f" "queryOk f" "markOk f"
  shows "map_of (store (processOne U e now f w (k, m))) =
           (map_of (store w))(k \<mapsto> m0\<lparr>IsForwarded := True\<rparr>)"
    and "sendLog (processOne U e now f w (k, m)) =
           sendLog w @ [(mustGetPersonalChatID e, formatMessage m, sendOk f)]"
proof -
  let ?fp = "computeFingerprint U (MessageText m)"
  have u: "updateProcessingResult False now (store w) k True ?fp = Inl Unavailable"
    by (simp add: updateProcessingResult_def)
  have q: "isFingerprintForwarded True (store w) ?fp = Inr False"
    using free by (simp add: isFingerprintForwarded_ok claimed_iff)
  obtain st2 where f: "markForwarded True (store w) k = Inr st2"
    and m2: "map_of st2 = (map_of (store w))(k \<mapsto> m0\<lparr>IsForwarded := True\<rparr>)"
    using markForwarded_ok [OF doc] by blast
  have r: "processOne U e now f w (k, m) =
             w\<lparr>store := st2,
               sendLog := sendLog w @ [(mustGetPersonalChatID e, formatMessage m, sendOk f)]\<rparr>"
    using rel u q f ok
    by (simp add: processOne_def DataTo_def sendTextMessage_def Let_def)
  show "map_of (store (processOne U e now f w (k, m))) =
           (map_of (store w))(k \<mapsto> m0\<lparr>IsForwarded := True\<rparr>)"
    by (simp add: r m2)
  show "sendLog (processOne U e now f w (k, m)) =
           sendLog w @ [(mustGetPersonalChatID e, formatMessage m, sendOk f)]"
    by (simp add: r)
qed

text \<open>A relevant document whose fingerprint is already held: classified, not sent.\<close>

lemma processOne_duplicate:
  assumes doc: "map_of (store w) k = Some m0"
    and rel: "isRelevant U (MessageText m)"
    and held: "claimed (store w) (computeFingerprint U (MessageText m))"
    and ok: "decodeOk f" "updateOk f" "queryOk f"
  shows "map_of (store (processOne U e now f w (k, m))) =
           (map_of (store w))(k \<mapsto> m0\<lparr>IsProcessed := True, IsRelevant := Some True,
               ProcessedAt := Some now,
               JobFingerprint := Some (computeFingerprint U (MessageText m))\<rparr>)"
    and "sendLog (processOne U e now f w (k, m)) = sendLog w"
proof -
  let ?fp = "computeFingerprint U (MessageText m)"
  let ?m1 = "m0\<lparr>IsProcessed := True, IsRelevant := Some True,
               ProcessedAt := Some now, JobFingerprint := Some ?fp\<rparr>"
  obtain st1 where u: "updateProcessingResult True now (store w) k True ?fp = Inr st1"
    and m1: "map_of st1 = (map_of (store w))(k \<mapsto> ?m1)"
    using updateProcessingResult_ok [OF doc] by blast
  from held obtain k0 m' where a: "map_of (store w) k0 = Some m'"
    "JobFingerprint m' = Some ?fp" "IsForwarded m'"
    unfolding claimed_iff by blast
  have "\<exists>m''. map_of st1 k0 = Some m'' \<and> JobFingerprint m'' = Some ?fp \<and> IsForwarded m''"
    using a doc by (cases "k0 = k") (auto simp: m1)
  then have q: "isFingerprintForwarded True st1 ?fp = Inr True"
    by (auto simp: isFingerprintForwarded_ok)
  have r: "processOne U e now f w (k, m) = w\<lparr>store := st1\<rparr>"
    using rel u q ok
    by (simp add: processOne_def DataTo_def Let_def)
  show "map_of (store (processOne U e now f w (k, m))) =
           (map_of (store w))(k \<mapsto> m0\<lparr>IsProcessed := True, IsRelevant := Some True,
               ProcessedAt := Some now,
               JobFingerprint := Some (computeFingerprint U (MessageText m))\<rparr>)"
    by (simp add: r m1)
  show "sendLog (processOne U e now f w (k, m)) = sendLog w"
    by (simp add: r)
qed


section \<open>Claims about the worker\<close>

lemma relevant_msgA: "isRelevant U (MessageText msgA)"
  by (simp add: msgA_def isRelevant_def excludes2025_def classifier_eval)

lemma relevant_msgB: "isRelevant U (MessageText msgB)"
  by (simp add: msgB_def isRelevant_def excludes2025_def classifier_eval)


text \<open>
  C1. The claim: for a relevant record that is no duplicate, \<open>mark_forwarded\<close> is
  called only if the send succeeds, and a failed send leaves \<open>is_forwarded = false\<close>.
  The code: \<open>processOne\<close> drops the result of \<open>sendTextMessage\<close> and calls
  \<open>markForwarded\<close> in every case. For the post \<open>msgA\<close> with a send that fails, the send
  is tried once, it is logged as failed, and the record ends with
  \<open>is_forwarded = true\<close>.
\<close>

theorem C1_failed_send_still_marked_forwarded:
  "sendLog (processOne U envOK 5 (allOk\<lparr>sendOk := False\<rparr>)
              \<lparr>store = [(''-1001_7'', msgA)], sendLog = []\<rparr> (''-1001_7'', msgA))
     = [(mustGetPersonalChatID envOK, formatMessage msgA, False)]
   \<and> map_option IsForwarded
        (map_of (store (processOne U envOK 5 (allOk\<lparr>sendOk := False\<rparr>)
              \<lparr>store = [(''-1001_7'', msgA)], sendLog = []\<rparr> (''-1001_7'', msgA))) ''-1001_7'')
     = Some True"
proof -
  let ?w = "\<lparr>store = [(''-1001_7'', msgA)], sendLog = []\<rparr>"
  let ?f = "allOk\<lparr>sendOk := False\<rparr>"
  have doc: "map_of (store ?w) ''-1001_7'' = Some msgA" by simp
  have free: "\<not> claimed (store ?w) (computeFingerprint U (MessageText msgA))"
    by (simp add: claimed_iff msgA_def)
  have nf: "\<not> IsForwarded msgA" by (simp add: msgA_def)
  have ok: "decodeOk ?f" "updateOk ?f" "queryOk ?f" "markOk ?f"
    by (simp_all add: allOk_def)
  note p = processOne_forwards [OF doc relevant_msgA free nf ok, of envOK 5]
  show ?thesis
    using p by simp
qed

text \<open>
  C3. The claim: when the update of the classification fails for a record, the
  record is skipped, with no duplicate check and no forward attempt. The code:
  \<open>processOne\<close> drops the result of \<open>updateProcessingResult\<close> and goes on. For the post
  \<open>msgA\<close> with an update that fails, the record stays unprocessed and without
  fingerprint, and it is sent and marked as forwarded all the same.
\<close>

theorem C3_failed_update_still_forwards:
  "sendLog (processOne U envOK 5 (allOk\<lparr>updateOk := False\<rparr>)
              \<lparr>store = [(''-1001_7'', msgA)], sendLog = []\<rparr> (''-1001_7'', msgA))
     = [(mustGetPersonalChatID envOK, formatMessage msgA, True)]
   \<and> map_option (\<lambda>m. (IsProcessed m, JobFingerprint m, IsForwarded m))
        (map_of (store (processOne U envOK 5 (allOk\<lparr>updateOk := False\<rparr>)
              \<lparr>store = [(''-1001_7'', msgA)], sendLog = []\<rparr> (''-1001_7'', msgA))) ''-1001_7'')
     = Some (False, None, True)"
proof -
  let ?w = "\<lparr>store = [(''-1001_7'', msgA)], sendLog = []\<rparr>"
  let ?f = "allOk\<lparr>updateOk := False\<rparr>"
  have doc: "map_of (store ?w) ''-1001_7'' = Some msgA" by simp
  have free: "\<not> claimed (store ?w) (computeFingerprint U (MessageText msgA))"
    by (simp add: claimed_iff msgA_def)
  have ok: "decodeOk ?f" "\<not> updateOk ?f" "queryOk ?f" "markOk ?f"
    by (simp_all add: allOk_def)
  note p = processOne_update_failed [OF doc relevant_msgA free ok, of envOK 5]
  have "IsProcessed msgA = False" "JobFingerprint msgA = None" "sendOk allOk"
    by (simp_all add: msgA_def allOk_def)
  then show ?thesis
    using p by simp
qed


lemma normalizeText_msgA:
  "normalizeText U (MessageText msgA) = ''backend engineer role apply now 2025 batch''"
  unfolding msgA_def by code_simp

lemma normalizeText_msgB:
  "normalizeText U (MessageText msgB) = ''backend engineer role apply now 2025 batch''"
  unfolding msgB_def by code_simp

lemma fingerprint_msgA_msgB:
  "computeFingerprint U (MessageText msgA) = computeFingerprint U (MessageText msgB)"
  by (simp add: computeFingerprint_def normalizeText_msgA normalizeText_msgB)


lemma fingerprint_msgA:
  "computeFingerprint U (MessageText msgA)
     = ''6dfcb82ef4030ebf1f47b11dc3a296c6a0865e0cd8dbb7ef2f74051cd6ee4cea''"
  unfolding msgA_def by code_simp

lemma fetch_storeABC:
  "fetchUnprocessed True storeABC 50 = Inr [(''-1001_7'', msgA), (''-1002_9'', msgB)]"
  by (simp add: fetchUnprocessed_def documents_def storeABC_def storeAB_def)
    (simp add: msgA_def msgB_def msgC_def)

text \<open>
  The collection holds \<open>msgA\<close>, \<open>msgB\<close> and the forwarded \<open>msgC\<close> of the same
  fingerprint. The run fetches \<open>msgA\<close> and \<open>msgB\<close>, every call goes through, both end
  processed and not forwarded, and nothing is sent: not exactly one of the two is
  forwarded.
\<close>

theorem C4_third_record_counterexample:
  "\<forall>U. Getenv envOK ''GOOGLE_CLOUD_PROJECT'' \<noteq> []
   \<and> fetchUnprocessed True storeABC 50 = Inr [(''-1001_7'', msgA), (''-1002_9'', msgB)]
   \<and> computeFingerprint U (MessageText msgA) = computeFingerprint U (MessageText msgB)
   \<and> isRelevant U (MessageText msgA) \<and> isRelevant U (MessageText msgB)
   \<and> map_option (\<lambda>m. (JobFingerprint m, IsForwarded m)) (map_of storeABC ''-1003_1'')
       = Some (Some (computeFingerprint U (MessageText msgA)), True)
   \<and> (\<exists>w'. workerHandler U envOK 5 True True (\<lambda>k. allOk) \<lparr>Method = ''POST''\<rparr>
                 \<lparr>store = storeABC, sendLog = []\<rparr> = ((200, ''processed''), w')
            \<and> map_option (\<lambda>m. (IsProcessed m, IsForwarded m)) (map_of (store w') ''-1001_7'')
                = Some (True, False)
            \<and> map_option (\<lambda>m. (IsProcessed m, IsForwarded m)) (map_of (store w') ''-1002_9'')
                = Some (True, False)
            \<and> sendLog w' = [])"
proof
  fix U
  let ?fp = "computeFingerprint U (MessageText msgA)"
  let ?w0 = "\<lparr>store = storeABC, sendLog = []\<rparr>"
  let ?w1 = "processOne U envOK 5 allOk ?w0 (''-1001_7'', msgA)"
  let ?w2 = "processOne U envOK 5 allOk ?w1 (''-1002_9'', msgB)"
  have env: "Getenv envOK ''GOOGLE_CLOUD_PROJECT'' \<noteq> []"
    by (simp add: Getenv_def envOK_def)
  have nfA: "\<not> IsForwarded msgA" and nfB: "\<not> IsForwarded msgB"
    by (simp_all add: msgA_def msgB_def)
  have okA: "decodeOk allOk" "updateOk allOk" "queryOk allOk"
    by (simp_all add: allOk_def)
  have third: "map_of storeABC ''-1003_1'' = Some msgC"
    by (simp add: storeABC_def storeAB_def)
  have fpC: "JobFingerprint msgC = Some ?fp" and fwC: "IsForwarded msgC"
    by (simp_all add: msgC_def fingerprint_msgA)
  have dA: "map_of (store ?w0) ''-1001_7'' = Some msgA"
    and dB0: "map_of storeABC ''-1002_9'' = Some msgB"
    by (simp_all add: storeABC_def storeAB_def)
  have held0: "claimed (store ?w0) ?fp"
    unfolding claimed_iff using third fpC fwC by auto
  note a = processOne_duplicate [OF dA relevant_msgA held0 okA, of envOK 5]
  have dB1: "map_of (store ?w1) ''-1002_9'' = Some msgB"
    using dB0 by (simp add: a(1))
  have "map_of (store ?w1) ''-1003_1'' = Some msgC"
    using third by (simp add: a(1))
  then have held1: "claimed (store ?w1) (computeFingerprint U (MessageText msgB))"
    unfolding claimed_iff fingerprint_msgA_msgB [symmetric] using fpC fwC by blast
  note b = processOne_duplicate [OF dB1 relevant_msgB held1 okA, of envOK 5]
  have run: "workerHandler U envOK 5 True True (\<lambda>k. allOk) \<lparr>Method = ''POST''\<rparr> ?w0
               = ((200, ''processed''), ?w2)"
    using env fetch_storeABC by (simp add: workerHandler_def getFirestoreClient_def Let_def)
  have rA: "map_option (\<lambda>m. (IsProcessed m, IsForwarded m)) (map_of (store ?w2) ''-1001_7'')
              = Some (True, False)"
    using nfA by (simp add: b(1) a(1))
  have rB: "map_option (\<lambda>m. (IsProcessed m, IsForwarded m)) (map_of (store ?w2) ''-1002_9'')
              = Some (True, False)"
    using nfB by (simp add: b(1))
  have rL: "sendLog ?w2 = []"
    by (simp add: b(2) a(2))
  have rC: "map_option (\<lambda>m. (JobFingerprint m, IsForwarded m)) (map_of storeABC ''-1003_1'')
       = Some (Some ?fp, True)"
    using third fpC fwC by simp
  from env fetch_storeABC fingerprint_msgA_msgB relevant_msgA relevant_msgB rC run rA rB rL
  show "Getenv envOK ''GOOGLE_CLOUD_PROJECT'' \<noteq> []
   \<and> fetchUnprocessed True storeABC 50 = Inr [(''-1001_7'', msgA), (''-1002_9'', msgB)]
   \<and> computeFingerprint U (MessageText msgA) = computeFingerprint U (MessageText msgB)
   \<and> isRelevant U (MessageText msgA) \<and> isRelevant U (MessageText msgB)
   \<and> map_option (\<lambda>m. (JobFingerprint m, IsForwarded m)) (map_of storeABC ''-1003_1'')
       = Some (Some (computeFingerprint U (MessageText msgA)), True)
   \<and> (\<exists>w'. workerHandler U envOK 5 True True (\<lambda>k. allOk) \<lparr>Method = ''POST''\<rparr>
                 \<lparr>store = storeABC, sendLog = []\<rparr> = ((200, ''processed''), w')
            \<and> map_option (\<lambda>m. (IsProcessed m, IsForwarded m)) (map_of (store w') ''-1001_7'')
                = Some (True, False)
            \<and> map_option (\<lambda>m. (IsProcessed m, IsForwarded m)) (map_of (store w') ''-1002_9'')
                = Some (True, False)
            \<and> sendLog w' = [])" by blast
qed


section \<open>Claims about the webhook\<close>

text \<open>
  C9. The webhook answers 200 whatever the request and whatever fails. For an
  accepted update (a POST whose body decodes to a message or channel post with a
  text, a caption, a photo or a document), when the client and the write go
  through, the collection holds under the ID \<open>{chat.id}_{message_id}\<close> a record whose
  \<open>message_text\<close> is the text field of the update, with the processing fields unset
  and false. The caption is not copied: a post with a caption and no text is stored
  with an empty \<open>message_text\<close>.
\<close>

theorem C9_webhook_stores_text_only:
  "fst (telegramWebhookHandler e now clientOk writeOk r w) = 200
   \<and> (Method r = ''POST'' \<and> Body r = Some u
        \<and> (case Message u of Some m \<Rightarrow> Some m | None \<Rightarrow> ChannelPost u) = Some msg
        \<and> (Text msg \<noteq> [] \<or> Caption msg \<noteq> [] \<or> Document msg \<noteq> None \<or> Photo msg \<noteq> [])
        \<and> Getenv e ''GOOGLE_CLOUD_PROJECT'' \<noteq> [] \<and> clientOk \<and> writeOk
      \<longrightarrow> map_of (store (snd (telegramWebhookHandler e now clientOk writeOk r w)))
            (Sprintf_d (ID (Chat msg)) @ ''_'' @ Sprintf_d (MessageID_raw msg))
          = Some \<lparr>ChannelID = ID (Chat msg), ChannelName = Title (Chat msg),
                  MessageID = MessageID_raw msg, MessageText = Text msg,
                  MessageTimestamp = Date msg, ReceivedAt = now,
                  IsProcessed = False, IsRelevant = None, ProcessedAt = None,
                  JobFingerprint = None, IsForwarded = False\<rparr>)"
proof -
  have status: "fst (telegramWebhookHandler e now clientOk writeOk r w) = 200"
    by (simp add: telegramWebhookHandler_def Let_def split: option.splits sum.splits)
  have stored: "map_of (store (snd (telegramWebhookHandler e now clientOk writeOk r w)))
            (Sprintf_d (ID (Chat msg)) @ ''_'' @ Sprintf_d (MessageID_raw msg))
          = Some \<lparr>ChannelID = ID (Chat msg), ChannelName = Title (Chat msg),
                  MessageID = MessageID_raw msg, MessageText = Text msg,
                  MessageTimestamp = Date msg, ReceivedAt = now,
                  IsProcessed = False, IsRelevant = None, ProcessedAt = None,
                  JobFingerprint = None, IsForwarded = False\<rparr>"
    if a: "Method r = ''POST''" "Body r = Some u"
      "(case Message u of Some m \<Rightarrow> Some m | None \<Rightarrow> ChannelPost u) = Some msg"
      "Text msg \<noteq> [] \<or> Caption msg \<noteq> [] \<or> Document msg \<noteq> None \<or> Photo msg \<noteq> []"
      "Getenv e ''GOOGLE_CLOUD_PROJECT'' \<noteq> []" "clientOk" "writeOk"
  proof -
    have c: "getFirestoreClient e clientOk = Inr ()"
      using a(5,6) by (simp add: getFirestoreClient_def)
    show ?thesis
      using a(1,2,3,4,7) c
      by (auto simp: telegramWebhookHandler_def Let_def storeMessage_def update_conv')
  qed
  from status stored show ?thesis by blast
qed

lemma Sprintf_d_example: "Sprintf_d (- 1001) @ ''_'' @ Sprintf_d 7 = ''-1001_7''"
  by (simp add: Sprintf_d_def natDigits.simps digitChars_def)

theorem C9_webhook_stores_text_only_witness:
  "fst (telegramWebhookHandler envOK 5 True True photoRequest \<lparr>store = [], sendLog = []\<rparr>) = 200
   \<and> fst (telegramWebhookHandler envOK 5 False False photoRequest \<lparr>store = [], sendLog = []\<rparr>) = 200
   \<and> Method photoRequest = ''POST''
   \<and> Text photoPost = [] \<and> Caption photoPost = ''We are hiring''
   \<and> Photo photoPost \<noteq> []
   \<and> Getenv envOK ''GOOGLE_CLOUD_PROJECT'' \<noteq> []
   \<and> map_of (store (snd (telegramWebhookHandler envOK 5 True True photoRequest
                            \<lparr>store = [], sendLog = []\<rparr>))) ''-1001_7''
       = Some \<lparr>ChannelID = - 1001, ChannelName = ''jobs'',
                MessageID = 7, MessageText = [],
                MessageTimestamp = 1700000000, ReceivedAt = 5,
                IsProcessed = False, IsRelevant = None, ProcessedAt = None,
                JobFingerprint = None, IsForwarded = False\<rparr>"
proof -
  have m: "Method photoRequest = ''POST''"
    and b: "Body photoRequest = Some \<lparr>UpdateID = 1, Message = None, ChannelPost = Some photoPost\<rparr>"
    by (simp_all add: photoRequest_def)
  have p: "(case Message \<lparr>UpdateID = 1, Message = None, ChannelPost = Some photoPost\<rparr> of
              Some m \<Rightarrow> Some m
            | None \<Rightarrow> ChannelPost \<lparr>UpdateID = 1, Message = None, ChannelPost = Some photoPost\<rparr>)
           = Some photoPost"
    by simp
  have f: "Text photoPost = []" "Caption photoPost = ''We are hiring''" "Photo photoPost \<noteq> []"
    "ID (Chat photoPost) = - 1001" "MessageID_raw photoPost = 7"
    "Title (Chat photoPost) = ''jobs''" "Date photoPost = 1700000000"
    by (simp_all add: photoPost_def)
  have env: "Getenv envOK ''GOOGLE_CLOUD_PROJECT'' \<noteq> []"
    by (simp add: Getenv_def envOK_def)
  note t = C9_webhook_stores_text_only [where e = envOK and now = 5 and clientOk = True
      and writeOk = True and r = photoRequest and w = "\<lparr>store = [], sendLog = []\<rparr>"
      and u = "\<lparr>UpdateID = 1, Message = None, ChannelPost = Some photoPost\<rparr>"
      and msg = photoPost]
  note t' = C9_webhook_stores_text_only [where e = envOK and now = 5 and clientOk = False
      and writeOk = False and r = photoRequest and w = "\<lparr>store = [], sendLog = []\<rparr>"
      and u = "\<lparr>UpdateID = 1, Message = None, ChannelPost = Some photoPost\<rparr>"
      and msg = photoPost]
  have s1: "fst (telegramWebhookHandler envOK 5 True True photoRequest \<lparr>store = [], sendLog = []\<rparr>) = 200"
    using t by blast
  have s2: "fst (telegramWebhookHandler envOK 5 False False photoRequest \<lparr>store = [], sendLog = []\<rparr>) = 200"
    using t' by blast
  have "map_of (store (snd (telegramWebhookHandler envOK 5 True True photoRequest
                            \<lparr>store = [], sendLog = []\<rparr>)))
            (Sprintf_d (ID (Chat photoPost)) @ ''_'' @ Sprintf_d (MessageID_raw photoPost))
       = Some \<lparr>ChannelID = ID (Chat photoPost), ChannelName = Title (Chat photoPost),
                  MessageID = MessageID_raw photoPost, MessageText = Text photoPost,
                  MessageTimestamp = Date photoPost, ReceivedAt = 5,
                  IsProcessed = False, IsRelevant = None, ProcessedAt = None,
                  JobFingerprint = None, IsForwarded = False\<rparr>"
    using t m b p f(3) env by blast
  then have s3: "map_of (store (snd (telegramWebhookHandler envOK 5 True True photoRequest
                            \<lparr>store = [], sendLog = []\<rparr>))) ''-1001_7''
       = Some \<lparr>ChannelID = - 1001, ChannelName = ''jobs'',
                MessageID = 7, MessageText = [],
                MessageTimestamp = 1700000000, ReceivedAt = 5,
                IsProcessed = False, IsRelevant = None, ProcessedAt = None,
                JobFingerprint = None, IsForwarded = False\<rparr>"
    unfolding f Sprintf_d_example .
  from s1 s2 m f(1,2,3) env s3 show ?thesis by blast
qed

section \<open>Claims about the fingerprint\<close>

lemma unat_high_nibble: "unat (drop_bit 4 (v :: 8 word)) = unat v div 16"
  by (simp add: drop_bit_eq_div unat_div_distrib)

lemma unat_low_nibble: "unat ((v :: 8 word) AND 0x0f) = unat v mod 16"
proof -
  have m: "(0x0f :: 8 word) = mask 4" by (simp add: mask_eq_exp_minus_1)
  have "unat (v AND mask 4) = unat v mod 16"
    by (simp add: take_bit_eq_mask [symmetric] take_bit_eq_mod unat_mod_distrib)
  then show ?thesis unfolding m .
qed

lemma EncodeToString_lowerHex: "EncodeToString bs = lowerHex bs"
  unfolding EncodeToString_def lowerHex_def hexDigit_def hextable_def
    unat_high_nibble unat_low_nibble ..

lemma length_Sum256: "length (Sum256 d) = 32"
  by (simp add: Sum256_def bytes32_def split: prod.splits)

lemma length_lowerHex: "length (lowerHex bs) = 2 * length bs"
  by (induction bs) (simp_all add: lowerHex_def)

lemma hexDigit_mem: "n < 16 \<Longrightarrow> hexDigit n \<in> set hextable"
  unfolding hexDigit_def hextable_def by (rule nth_mem) simp

lemma unat_byte_div: "unat (b :: 8 word) div 16 < 16"
proof -
  have "unat b < 2 ^ LENGTH(8)" by (rule unsigned_less)
  then show ?thesis by simp
qed

lemma lowerHex_chars: "list_all (\<lambda>c. c \<in> set hextable) (lowerHex bs)"
  by (induction bs) (simp_all add: lowerHex_def hexDigit_mem unat_byte_div)

lemma computeFingerprint_take:
  "computeFingerprint U txt = EncodeToString (Sum256 (map of_char (take 400 (normalizeText U txt))))"
  by (simp add: computeFingerprint_def Let_def)

text \<open>
  C5. The fingerprint is a function of the text: it is the lower-case hexadecimal
  rendering (64 characters out of \<open>0-9a-f\<close>) of the 32 bytes that SHA-256 gives for
  the first 400 characters of the normal form. Two texts whose normal forms agree
  on their first 400 characters have the same fingerprint.
\<close>

theorem C5_fingerprint_of_normal_form:
  "computeFingerprint U messageText = fingerprint_spec U messageText
   \<and> length (Sum256 d) = 32
   \<and> length (computeFingerprint U messageText) = 64
   \<and> list_all (\<lambda>c. c \<in> set ''0123456789abcdef'') (computeFingerprint U messageText)
   \<and> (take 400 (normalizeText U a) = take 400 (normalizeText U b)
        \<longrightarrow> computeFingerprint U a = computeFingerprint U b)"
proof -
  have e: "computeFingerprint U messageText = fingerprint_spec U messageText"
    by (simp add: computeFingerprint_take fingerprint_spec_def EncodeToString_lowerHex)
  have l: "length (computeFingerprint U messageText) = 64"
    by (simp add: computeFingerprint_take EncodeToString_lowerHex length_lowerHex length_Sum256)
  have c: "list_all (\<lambda>c. c \<in> set ''0123456789abcdef'') (computeFingerprint U messageText)"
    using lowerHex_chars [of "Sum256 (map of_char (take 400 (normalizeText U messageText)))"]
    by (simp add: computeFingerprint_take EncodeToString_lowerHex hextable_def)
  have q: "computeFingerprint U a = computeFingerprint U b"
    if "take 400 (normalizeText U a) = take 400 (normalizeText U b)"
    using that by (simp add: computeFingerprint_take)
  from e l c q length_Sum256 show ?thesis by blast
qed

lemma normalizeText_visit_url: "normalizeText U ''Visit http://x.com NOW'' = ''visit now''"
  by code_simp

lemma normalizeText_visit: "normalizeText U ''visit now'' = ''visit now''"
  by code_simp

lemma fingerprint_visit:
  "computeFingerprint U ''visit now''
     = ''61f536bb012d9898fe7650a36da18f2d4613ddd1d5b3be2c3090f452b2427ebf''"
  by code_simp

lemma normalizeText_repostX:
  "normalizeText U repostX = concat (replicate 100 ''abc '') @ ''x''"
  unfolding repostX_def by code_simp

lemma normalizeText_repostY:
  "normalizeText U repostY = concat (replicate 100 ''abc '') @ ''y''"
  unfolding repostY_def by code_simp

theorem C5_fingerprint_of_normal_form_witness:
  "\<forall>U. take 400 (normalizeText U ''Visit http://x.com NOW'') = take 400 (normalizeText U ''visit now'')
   \<and> computeFingerprint U ''Visit http://x.com NOW''
       = ''61f536bb012d9898fe7650a36da18f2d4613ddd1d5b3be2c3090f452b2427ebf''
   \<and> computeFingerprint U ''visit now''
       = ''61f536bb012d9898fe7650a36da18f2d4613ddd1d5b3be2c3090f452b2427ebf''
   \<and> fingerprint_spec U ''visit now''
       = ''61f536bb012d9898fe7650a36da18f2d4613ddd1d5b3be2c3090f452b2427ebf''
   \<and> length (computeFingerprint U ''visit now'') = 64
   \<and> length (normalizeText U repostX) = 401
   \<and> normalizeText U repostX \<noteq> normalizeText U repostY
   \<and> take 400 (normalizeText U repostX) = take 400 (normalizeText U repostY)
   \<and> computeFingerprint U repostX = computeFingerprint U repostY"
proof
  fix U
  have v: "normalizeText U ''visit now'' = ''visit now''"
    by (rule normalizeText_visit)
  have h: "take 400 (normalizeText U ''Visit http://x.com NOW'') = take 400 (normalizeText U ''visit now'')"
    by (simp add: normalizeText_visit_url v)
  note t = C5_fingerprint_of_normal_form [where messageText = "''visit now''" and U = U
      and a = "''Visit http://x.com NOW''" and b = "''visit now''" and d = "[]"]
  note t' = C5_fingerprint_of_normal_form [where messageText = "''visit now''" and U = U
      and a = repostX and b = repostY and d = "[]"]
  have l: "length (concat (replicate 100 ''abc '')) = 400"
    by (simp add: length_concat sum_list_replicate)
  have lx: "length (normalizeText U repostX) = 401"
    by (simp add: normalizeText_repostX l)
  have ne: "normalizeText U repostX \<noteq> normalizeText U repostY"
    by (simp add: normalizeText_repostX normalizeText_repostY)
  have cut: "take 400 (normalizeText U repostX) = take 400 (normalizeText U repostY)"
    by (simp add: normalizeText_repostX normalizeText_repostY l)
  have f1: "computeFingerprint U ''Visit http://x.com NOW''
       = ''61f536bb012d9898fe7650a36da18f2d4613ddd1d5b3be2c3090f452b2427ebf''"
    using t h fingerprint_visit [of U] by simp
  have f2: "fingerprint_spec U ''visit now''
       = ''61f536bb012d9898fe7650a36da18f2d4613ddd1d5b3be2c3090f452b2427ebf''"
    using t fingerprint_visit [of U] by simp
  have f3: "length (computeFingerprint U ''visit now'') = 64"
    using t by blast
  have f4: "computeFingerprint U repostX = computeFingerprint U repostY"
    using t' cut by blast
  from h f1 fingerprint_visit [of U] f2 f3 lx ne cut f4
  show "take 400 (normalizeText U ''Visit http://x.com NOW'') = take 400 (normalizeText U ''visit now'')
   \<and> computeFingerprint U ''Visit http://x.com NOW''
       = ''61f536bb012d9898fe7650a36da18f2d4613ddd1d5b3be2c3090f452b2427ebf''
   \<and> computeFingerprint U ''visit now''
       = ''61f536bb012d9898fe7650a36da18f2d4613ddd1d5b3be2c3090f452b2427ebf''
   \<and> fingerprint_spec U ''visit now''
       = ''61f536bb012d9898fe7650a36da18f2d4613ddd1d5b3be2c3090f452b2427ebf''
   \<and> length (computeFingerprint U ''visit now'') = 64
   \<and> length (normalizeText U repostX) = 401
   \<and> normalizeText U repostX \<noteq> normalizeText U repostY
   \<and> take 400 (normalizeText U repostX) = take 400 (normalizeText U repostY)
   \<and> computeFingerprint U repostX = computeFingerprint U repostY" by blast
qed

section \<open>Claims about the destination chat\<close>

lemma digitOf_digit:
  "c \<in> set digitChars \<Longrightarrow> digitOf c = Some (digitVal c) \<and> digitVal c < 10"
  by (auto simp: digitOf_def digitVal_def digitChars_def)

lemma digitOf_other:
  "c \<notin> set digitChars \<Longrightarrow> digitOf c = None \<or> (\<exists>d\<ge>10. digitOf c = Some d)"
  by (simp add: digitOf_def)

lemma decimalFrom_Cons: "decimalFrom n (c # cs) = decimalFrom (10 * n + digitVal c) cs"
  by (simp add: decimalFrom_def)

lemma decimalFrom_ge: "n \<le> decimalFrom n ds"
proof (induction ds arbitrary: n)
  case Nil
  then show ?case by (simp add: decimalFrom_def)
next
  case (Cons c cs)
  have "n \<le> 10 * n + digitVal c" by simp
  also have "\<dots> \<le> decimalFrom (10 * n + digitVal c) cs" by (rule Cons.IH)
  finally show ?case by (simp add: decimalFrom_Cons)
qed

lemma cutoff_val: "((- 1) div 10 + 1 :: 64 word) = 1844674407370955162"
  by simp

lemma loop_step_ok:
  fixes n :: "64 word"
  assumes d: "d < 10" and n: "10 * unat n + d < 2 ^ 64"
  shows "\<not> n \<ge> 1844674407370955162"
    and "unat (n * 10 + of_nat d) = 10 * unat n + d"
    and "\<not> (n * 10 + of_nat d < n * 10)"
proof -
  have u10: "unat (10 :: 64 word) = 10" by simp
  have ud: "unat (of_nat d :: 64 word) = d" using d by (simp add: unat_of_nat)
  show "\<not> n \<ge> 1844674407370955162"
    using n by (simp add: word_le_nat_alt)
  have "unat n * unat (10 :: 64 word) < 2 ^ LENGTH(64)" using n by simp
  then have m: "unat (n * 10) = unat n * 10"
    unfolding unat_mult_lem by simp
  have "unat (n * 10) + unat (of_nat d :: 64 word) < 2 ^ LENGTH(64)"
    using n by (simp add: m ud)
  then have a: "unat (n * 10 + of_nat d) = unat (n * 10) + unat (of_nat d :: 64 word)"
    and le: "n * 10 \<le> n * 10 + of_nat d"
    unfolding unat_add_lem no_olen_add_nat by simp_all
  show "unat (n * 10 + of_nat d) = 10 * unat n + d"
    by (simp add: a m ud)
  show "\<not> (n * 10 + of_nat d < n * 10)"
    using le by simp
qed

lemma loop_step_overflow:
  fixes n :: "64 word"
  assumes d: "d < 10" and n: "\<not> 10 * unat n + d < 2 ^ 64"
  shows "n \<ge> 1844674407370955162 \<or> n * 10 + of_nat d < n * 10"
proof (cases "n \<ge> 1844674407370955162")
  case True
  then show ?thesis by simp
next
  case False
  then have s: "unat n < 1844674407370955162" by (simp add: word_le_nat_alt)
  have ud: "unat (of_nat d :: 64 word) = d" using d by (simp add: unat_of_nat)
  have "unat n * unat (10 :: 64 word) < 2 ^ LENGTH(64)" using s by simp
  then have m: "unat (n * 10) = unat n * 10"
    unfolding unat_mult_lem by simp
  have "\<not> unat (n * 10) + unat (of_nat d :: 64 word) < 2 ^ LENGTH(64)"
    using n by (simp add: m ud)
  then have "\<not> n * 10 \<le> n * 10 + of_nat d"
    unfolding no_olen_add_nat .
  then have "n * 10 + of_nat d < n * 10" by (rule Orderings.linorder_class.not_le_imp_less)
  then show ?thesis ..
qed

lemma ParseUint_loop_digits:
  assumes "\<forall>c \<in> set ds. c \<in> set digitChars"
  shows "ParseUint_loop n ds =
           (if decimalFrom (unat n) ds < 2 ^ 64
            then (of_nat (decimalFrom (unat n) ds), None)
            else (- 1, Some ErrRange))"
  using assms
proof (induction ds arbitrary: n)
  case Nil
  have "unat n < 2 ^ LENGTH(64)" by (rule unsigned_less)
  then show ?case by (simp add: decimalFrom_def)
next
  case (Cons c cs)
  let ?d = "digitVal c"
  have dc: "digitOf c = Some ?d" and d: "?d < 10"
    using Cons.prems digitOf_digit by auto
  have cs: "\<forall>c \<in> set cs. c \<in> set digitChars" using Cons.prems by simp
  show ?case
  proof (cases "10 * unat n + ?d < 2 ^ 64")
    case True
    note s = loop_step_ok [OF d True]
    have "ParseUint_loop n (c # cs) = ParseUint_loop (n * 10 + of_nat ?d) cs"
      using s(1,3) d by (simp add: dc Let_def)
    then show ?thesis
      by (simp add: Cons.IH [OF cs] s(2) decimalFrom_Cons)
  next
    case False
    have big: "\<not> decimalFrom (unat n) (c # cs) < 2 ^ 64"
      using False decimalFrom_ge [of "10 * unat n + ?d" cs]
      by (simp add: decimalFrom_Cons)
    have "ParseUint_loop n (c # cs) = (- 1, Some ErrRange)"
      using loop_step_overflow [OF d False] d by (auto simp: dc Let_def)
    then show ?thesis using big by simp
  qed
qed

lemma ParseUint_loop_append:
  "ParseUint_loop n (ds @ rest) =
     (case ParseUint_loop n ds of
        (m, None) \<Rightarrow> ParseUint_loop m rest
      | (m, Some err) \<Rightarrow> (m, Some err))"
  by (induction ds arbitrary: n) (auto simp: Let_def split: option.splits)

lemma ParseUint_loop_nondigit:
  assumes "c \<notin> set digitChars"
  shows "ParseUint_loop n (c # cs) = (0, Some ErrSyntax)"
  using digitOf_other [OF assms] by auto

lemma ParseUint_body:
  "ParseUint body =
     (if 2 ^ 64 \<le> decimalFrom 0 (takeWhile (\<lambda>c. c \<in> set digitChars) body)
      then (- 1, Some ErrRange)
      else if body = [] \<or> takeWhile (\<lambda>c. c \<in> set digitChars) body \<noteq> body
      then (0, Some ErrSyntax)
      else (of_nat (decimalFrom 0 body), None))"
proof -
  let ?P = "\<lambda>c. c \<in> set digitChars"
  let ?ds = "takeWhile ?P body"
  let ?rest = "dropWhile ?P body"
  have split: "body = ?ds @ ?rest" by simp
  have dig: "\<forall>c \<in> set ?ds. c \<in> set digitChars"
    by (auto dest: set_takeWhileD)
  note L = ParseUint_loop_digits [OF dig, of 0, simplified]
  show ?thesis
  proof (cases "body = []")
    case True
    then show ?thesis by (simp add: ParseUint_def decimalFrom_def)
  next
    case False
    have "ParseUint body = ParseUint_loop 0 (?ds @ ?rest)"
      using False by (simp add: ParseUint_def)
    also have "\<dots> = (case ParseUint_loop 0 ?ds of
        (m, None) \<Rightarrow> ParseUint_loop m ?rest
      | (m, Some err) \<Rightarrow> (m, Some err))"
      by (rule ParseUint_loop_append)
    finally have P: "ParseUint body = (case ParseUint_loop 0 ?ds of
        (m, None) \<Rightarrow> ParseUint_loop m ?rest
      | (m, Some err) \<Rightarrow> (m, Some err))" .
    show ?thesis
    proof (cases "2 ^ 64 \<le> decimalFrom 0 ?ds")
      case True
      then show ?thesis using P L by simp
    next
      case small: False
      show ?thesis
      proof (cases "?rest")
        case Nil
        have tk: "?ds = body" using split unfolding Nil by simp
        have "ParseUint body = (of_nat (decimalFrom 0 ?ds), None)"
          using P L small unfolding Nil by simp
        then have r: "ParseUint body = (of_nat (decimalFrom 0 body), None)"
          by (simp only: tk)
        have c1: "\<not> 2 ^ 64 \<le> decimalFrom 0 ?ds" by (rule small)
        have c2: "\<not> (body = [] \<or> ?ds \<noteq> body)" using False tk by blast
        show ?thesis unfolding r if_not_P [OF c1] if_not_P [OF c2] ..
      next
        case (Cons c cs)
        have "c \<notin> set digitChars"
          using hd_dropWhile [of ?P body] Cons by auto
        then have "ParseUint_loop m ?rest = (0, Some ErrSyntax)" for m
          unfolding Cons by (rule ParseUint_loop_nondigit)
        moreover have "?ds \<noteq> body" using split Cons
          by (metis append_Nil2 list.distinct(1) same_append_eq)
        ultimately show ?thesis using P L small by simp
      qed
    qed
  qed
qed

lemma chatID_spec_range: "- (2 ^ 63) \<le> chatID_spec s \<and> chatID_spec s \<le> 2 ^ 63 - 1"
  by (simp add: chatID_spec_def Let_def)

lemma sint_word_of_int_64:
  assumes "- (2 ^ 63) \<le> k" and "k \<le> 2 ^ 63 - 1"
  shows "sint (word_of_int k :: 64 word) = k"
proof -
  have "signed_take_bit 63 k = k"
    using assms by (intro signed_take_bit_int_eq_self) simp_all
  then show ?thesis by (simp add: sint_sbintrunc')
qed

lemma cutoff63: "(push_bit 63 1 :: 64 word) = 9223372036854775808"
  by simp

lemma ParseInt_spec: "fst (ParseInt s) = word_of_int (chatID_spec s)"
proof (cases "s = []")
  case True
  then show ?thesis
    by (simp add: ParseInt_def chatID_spec_def decimalFrom_def)
next
  case False
  define neg where "neg = (hd s = CHR ''-'')"
  define body where "body = (if hd s = CHR ''+'' \<or> hd s = CHR ''-'' then tl s else s)"
  define ds where "ds = takeWhile (\<lambda>c. c \<in> set digitChars) body"
  define V where "V = decimalFrom 0 ds"
  have spec: "chatID_spec s =
      (if int V \<ge> 2 ^ 64 then (if neg then - (2 ^ 63) else 2 ^ 63 - 1)
       else if body = [] \<or> ds \<noteq> body then 0
       else if neg then max (- int V) (- (2 ^ 63))
       else min (int V) (2 ^ 63 - 1))"
    using False by (simp add: chatID_spec_def Let_def neg_def body_def ds_def V_def)
  have code: "ParseInt s =
      (case ParseUint body of (un, err) \<Rightarrow>
         if err = Some ErrSyntax then (0, err)
         else if \<not> neg \<and> un \<ge> 9223372036854775808 then (9223372036854775808 - 1, Some ErrRange)
         else if neg \<and> un > 9223372036854775808 then (- 9223372036854775808, Some ErrRange)
         else (if neg then - un else un, None))"
    using False by (auto simp: ParseInt_def Let_def neg_def body_def split: prod.splits)
  note U = ParseUint_body [of body, folded ds_def, folded V_def]
  show ?thesis
  proof (cases "2 ^ 64 \<le> V")
    case True
    then have "ParseUint body = (- 1, Some ErrRange)" using U by simp
    moreover have "int V \<ge> 2 ^ 64" using True by (simp add: of_nat_le_iff [symmetric] del: of_nat_le_iff)
    ultimately show ?thesis
      by (simp add: code spec)
  next
    case small: False
    show ?thesis
    proof (cases "body = [] \<or> ds \<noteq> body")
      case True
      then have "ParseUint body = (0, Some ErrSyntax)" using U small by simp
      moreover have "\<not> int V \<ge> 2 ^ 64" using small by (simp add: of_nat_le_iff [symmetric] del: of_nat_le_iff)
      ultimately show ?thesis using True
        by (simp add: code spec)
    next
      case False
      then have db: "ds = body" by simp
      have pu: "ParseUint body = (of_nat V, None)"
        using U small False by (simp add: V_def db)
      have nb: "\<not> int V \<ge> 2 ^ 64" using small by (simp add: of_nat_le_iff [symmetric] del: of_nat_le_iff)
      have uV: "unat (of_nat V :: 64 word) = V"
        using small by (simp add: unat_of_nat)
      have le: "(of_nat V :: 64 word) \<ge> 9223372036854775808 \<longleftrightarrow> V \<ge> 2 ^ 63"
        by (simp add: word_le_nat_alt uV)
      have lt: "(of_nat V :: 64 word) > 9223372036854775808 \<longleftrightarrow> V > 2 ^ 63"
        by (simp add: word_less_nat_alt uV)
      have eq: "(of_nat V :: 64 word) = 9223372036854775808"
        if "\<not> 9223372036854775808 < V" "\<not> V \<le> 9223372036854775807"
      proof -
        from that have "V = 9223372036854775808" by arith
        then show ?thesis by simp
      qed
      show ?thesis
        using False nb eq
        by (auto simp: code spec pu le lt min_def max_def)
    qed
  qed
qed

lemma mustGetPersonalChatID_fst:
  "mustGetPersonalChatID e = fst (ParseInt (Getenv e ''PERSONAL_CHAT_ID''))"
  by (simp add: mustGetPersonalChatID_def Let_def split: prod.splits)

lemma ParseInt_syntax_zero: "snd (ParseInt s) = Some ErrSyntax \<Longrightarrow> fst (ParseInt s) = 0"
  by (auto simp: ParseInt_def Let_def split: prod.splits if_splits)

lemma ParseInt_range_bound:
  "snd (ParseInt s) = Some ErrRange \<Longrightarrow>
     fst (ParseInt s) = 9223372036854775807 \<or> fst (ParseInt s) = - 9223372036854775808"
  by (auto simp: ParseInt_def Let_def split: prod.splits if_splits)

text \<open>
  C10, as the code has it. The lookup returns the value of
  \<^verbatim>\<open>strconv.ParseInt\<close> and drops its error. It returns 0 when the variable is not
  set and whenever the parse ends in a syntax error. When the parse ends in a
  range error it returns the bound of the signed 64-bit range, \<open>2^63 - 1\<close> or
  \<open>- 2^63\<close>, and not 0. In every case the result is \<open>chatID_spec\<close> of the value, and
  a forwarded message is addressed to it.
\<close>

theorem C10_chat_id_lookup:
  "sint (mustGetPersonalChatID e) = chatID_spec (Getenv e ''PERSONAL_CHAT_ID'')
   \<and> (e ''PERSONAL_CHAT_ID'' = None \<longrightarrow> mustGetPersonalChatID e = 0)
   \<and> (snd (ParseInt (Getenv e ''PERSONAL_CHAT_ID'')) = Some ErrSyntax
        \<longrightarrow> mustGetPersonalChatID e = 0)
   \<and> (snd (ParseInt (Getenv e ''PERSONAL_CHAT_ID'')) = Some ErrRange
        \<longrightarrow> sint (mustGetPersonalChatID e) = 2 ^ 63 - 1
            \<or> sint (mustGetPersonalChatID e) = - (2 ^ 63))
   \<and> (map_of (store w) k = Some m0 \<and> isRelevant U (MessageText m)
        \<and> \<not> claimed (store w) (computeFingerprint U (MessageText m)) \<and> \<not> IsForwarded m0
        \<and> decodeOk f \<and> updateOk f \<and> queryOk f \<and> markOk f
        \<longrightarrow> sendLog (processOne U e now f w (k, m))
              = sendLog w @ [(mustGetPersonalChatID e, formatMessage m, sendOk f)])"
proof -
  let ?s = "Getenv e ''PERSONAL_CHAT_ID''"
  have A: "sint (mustGetPersonalChatID e) = chatID_spec ?s"
    using chatID_spec_range [of ?s]
    by (simp add: mustGetPersonalChatID_fst ParseInt_spec sint_word_of_int_64)
  have B: "mustGetPersonalChatID e = 0" if "e ''PERSONAL_CHAT_ID'' = None"
    using that by (simp add: mustGetPersonalChatID_fst Getenv_def ParseInt_def)
  have C: "mustGetPersonalChatID e = 0" if "snd (ParseInt ?s) = Some ErrSyntax"
    using ParseInt_syntax_zero [OF that] by (simp add: mustGetPersonalChatID_fst)
  have D: "sint (mustGetPersonalChatID e) = 2 ^ 63 - 1
            \<or> sint (mustGetPersonalChatID e) = - (2 ^ 63)"
    if "snd (ParseInt ?s) = Some ErrRange"
    using ParseInt_range_bound [OF that] by (auto simp: mustGetPersonalChatID_fst)
  have E: "sendLog (processOne U e now f w (k, m))
              = sendLog w @ [(mustGetPersonalChatID e, formatMessage m, sendOk f)]"
    if "map_of (store w) k = Some m0" "isRelevant U (MessageText m)"
      "\<not> claimed (store w) (computeFingerprint U (MessageText m))" "\<not> IsForwarded m0"
      "decodeOk f" "updateOk f" "queryOk f" "markOk f"
    using processOne_forwards(2) [OF that] .
  from A B C D E show ?thesis by blast
qed

lemma ParseInt_too_large:
  "ParseInt ''9223372036854775808'' = (9223372036854775807, Some ErrRange)"
  by (simp add: ParseInt_def ParseUint_def digitOf_def digitChars_def Let_def)

lemma ParseInt_letters: "ParseInt ''abc'' = (0, Some ErrSyntax)"
  by (simp add: ParseInt_def ParseUint_def digitOf_def digitChars_def Let_def
      toLowerChar_def lowerChars_def upperChars_def)

lemma ParseInt_42: "ParseInt ''42'' = (42, None)"
  by (simp add: ParseInt_def ParseUint_def digitOf_def digitChars_def Let_def)

text \<open>
  The claim as stated fails: the value \<open>9223372036854775808\<close> is not a 64-bit
  integer, \<^verbatim>\<open>ParseInt\<close> reports a range error, and the lookup returns
  \<open>9223372036854775807\<close>.
\<close>

theorem C10_out_of_range_counterexample:
  "snd (ParseInt (Getenv [''PERSONAL_CHAT_ID'' \<mapsto> ''9223372036854775808''] ''PERSONAL_CHAT_ID''))
     = Some ErrRange
   \<and> sint (mustGetPersonalChatID [''PERSONAL_CHAT_ID'' \<mapsto> ''9223372036854775808''])
     = 9223372036854775807
   \<and> mustGetPersonalChatID [''PERSONAL_CHAT_ID'' \<mapsto> ''9223372036854775808''] \<noteq> 0"
  by (simp add: mustGetPersonalChatID_fst Getenv_def ParseInt_too_large)

theorem C10_chat_id_lookup_witness:
  "\<forall>U. mustGetPersonalChatID Map.empty = 0
   \<and> snd (ParseInt (Getenv [''PERSONAL_CHAT_ID'' \<mapsto> ''abc''] ''PERSONAL_CHAT_ID'')) = Some ErrSyntax
   \<and> mustGetPersonalChatID [''PERSONAL_CHAT_ID'' \<mapsto> ''abc''] = 0
   \<and> snd (ParseInt (Getenv [''PERSONAL_CHAT_ID'' \<mapsto> ''9223372036854775808''] ''PERSONAL_CHAT_ID''))
       = Some ErrRange
   \<and> chatID_spec ''9223372036854775808'' = 2 ^ 63 - 1
   \<and> sint (mustGetPersonalChatID envOK) = 42
   \<and> sendLog (processOne U envOK 5 allOk \<lparr>store = [(''-1001_7'', msgA)], sendLog = []\<rparr>
                (''-1001_7'', msgA))
       = [(mustGetPersonalChatID envOK, formatMessage msgA, True)]"
proof
  fix U
  let ?w = "\<lparr>store = [(''-1001_7'', msgA)], sendLog = []\<rparr>"
  note t0 = C10_chat_id_lookup [where e = Map.empty]
  note t1 = C10_chat_id_lookup [where e = "[''PERSONAL_CHAT_ID'' \<mapsto> ''abc'']"]
  note t2 = C10_chat_id_lookup [where e = "[''PERSONAL_CHAT_ID'' \<mapsto> ''9223372036854775808'']"]
  note t3 = C10_chat_id_lookup [where e = envOK and w = ?w and k = "''-1001_7''"
      and ?m0.0 = msgA and m = msgA and f = allOk and now = 5]
  have r0: "mustGetPersonalChatID Map.empty = 0" using t0 by simp
  have s1: "snd (ParseInt (Getenv [''PERSONAL_CHAT_ID'' \<mapsto> ''abc''] ''PERSONAL_CHAT_ID'')) = Some ErrSyntax"
    by (simp add: Getenv_def ParseInt_letters)
  have r1: "mustGetPersonalChatID [''PERSONAL_CHAT_ID'' \<mapsto> ''abc''] = 0"
    using t1 s1 by blast
  have s2: "snd (ParseInt (Getenv [''PERSONAL_CHAT_ID'' \<mapsto> ''9223372036854775808''] ''PERSONAL_CHAT_ID''))
       = Some ErrRange"
    by (simp add: Getenv_def ParseInt_too_large)
  have "sint (mustGetPersonalChatID [''PERSONAL_CHAT_ID'' \<mapsto> ''9223372036854775808''])
          = chatID_spec ''9223372036854775808''"
    using t2 by (simp add: Getenv_def)
  then have r2: "chatID_spec ''9223372036854775808'' = 2 ^ 63 - 1"
    by (simp add: mustGetPersonalChatID_fst Getenv_def ParseInt_too_large)
  have "sint (mustGetPersonalChatID envOK) = sint (fst (ParseInt ''42''))"
    by (simp add: mustGetPersonalChatID_fst Getenv_def envOK_def)
  then have r3: "sint (mustGetPersonalChatID envOK) = 42"
    by (simp add: ParseInt_42)
  have doc: "map_of (store ?w) ''-1001_7'' = Some msgA" by simp
  have free: "\<not> claimed (store ?w) (computeFingerprint U (MessageText msgA))"
    by (simp add: claimed_iff msgA_def)
  have nf: "\<not> IsForwarded msgA" by (simp add: msgA_def)
  have ok: "decodeOk allOk" "updateOk allOk" "queryOk allOk" "markOk allOk" "sendOk allOk"
    by (simp_all add: allOk_def)
  have r4: "sendLog (processOne U envOK 5 allOk ?w (''-1001_7'', msgA))
       = [(mustGetPersonalChatID envOK, formatMessage msgA, True)]"
    using t3 doc relevant_msgA free nf ok by simp
  from r0 s1 r1 s2 r2 r3 r4
  show "mustGetPersonalChatID Map.empty = 0
   \<and> snd (ParseInt (Getenv [''PERSONAL_CHAT_ID'' \<mapsto> ''abc''] ''PERSONAL_CHAT_ID'')) = Some ErrSyntax
   \<and> mustGetPersonalChatID [''PERSONAL_CHAT_ID'' \<mapsto> ''abc''] = 0
   \<and> snd (ParseInt (Getenv [''PERSONAL_CHAT_ID'' \<mapsto> ''9223372036854775808''] ''PERSONAL_CHAT_ID''))
       = Some ErrRange
   \<and> chatID_spec ''9223372036854775808'' = 2 ^ 63 - 1
   \<and> sint (mustGetPersonalChatID envOK) = 42
   \<and> sendLog (processOne U envOK 5 allOk \<lparr>store = [(''-1001_7'', msgA)], sendLog = []\<rparr>
                (''-1001_7'', msgA))
       = [(mustGetPersonalChatID envOK, formatMessage msgA, True)]" by blast
qed

section \<open>Facts about matching and replacing\<close>

lemma ms_suffix: "s' \<in> set (ms r s) \<Longrightarrow> \<exists>w. s = w @ s'"
proof (induction r s arbitrary: s' rule: ms.induct)
  case (6 a b s)
  from "6.prems" obtain s1 where s1: "s1 \<in> set (ms a s)" and s2: "s' \<in> set (ms b s1)"
    by auto
  from "6.IH"(1) [OF s1] obtain w1 where "s = w1 @ s1" by blast
  moreover from "6.IH"(2) [OF s1 s2] obtain w2 where "s1 = w2 @ s'" by blast
  ultimately have "s = (w1 @ w2) @ s'" by simp
  then show ?case by blast
next
  case (8 n a s)
  from "8.prems" obtain s1 where s1: "s1 \<in> set (ms a s)" and s2: "s' \<in> set (ms (Rep n a) s1)"
    by auto
  from "8.IH"(1) [OF s1] obtain w1 where "s = w1 @ s1" by blast
  moreover from "8.IH"(2) [OF s1 s2] obtain w2 where "s1 = w2 @ s'" by blast
  ultimately have "s = (w1 @ w2) @ s'" by simp
  then show ?case by blast
next
  case (9 a s)
  from "9.prems" consider "s' = s"
    | s1 where "s1 \<in> set (ms a s)" "length s1 < length s" "s' \<in> set (ms (Rep 0 a) s1)"
    by (auto simp: ms.simps(9) [of a s])
  then show ?case
  proof cases
    case 1
    then show ?thesis by simp
  next
    case 2
    from "9.IH"(1) [OF 2(1)] obtain w1 where "s = w1 @ s1" by blast
    moreover from "9.IH"(2) [of s1 s'] 2 obtain w2 where "s1 = w2 @ s'" by auto
    ultimately have "s = (w1 @ w2) @ s'" by simp
    then show ?thesis by blast
  qed
qed (auto split: if_splits)

lemma ms_needs:
  "needs c r \<Longrightarrow> s' \<in> set (ms r s) \<Longrightarrow> \<exists>w. s = w @ s' \<and> c \<in> set w"
proof (induction r s arbitrary: s' rule: ms.induct)
  case (3 cs x t)
  then have "s' = t" "x = c" by (auto split: if_splits)
  then have "x # t = [c] @ s' \<and> c \<in> set [c]" by simp
  then show ?case by blast
next
  case (6 a b s)
  from "6.prems"(2) obtain s1 where s1: "s1 \<in> set (ms a s)" and s2: "s' \<in> set (ms b s1)"
    by auto
  from ms_suffix [OF s1] obtain w1 where w1: "s = w1 @ s1" by blast
  from ms_suffix [OF s2] obtain w2 where w2: "s1 = w2 @ s'" by blast
  have e: "s = (w1 @ w2) @ s'" using w1 w2 by simp
  from "6.prems"(1) consider "needs c a" | "needs c b" by auto
  then show ?case
  proof cases
    case 1
    from "6.IH"(1) [OF 1 s1] obtain v where "s = v @ s1" "c \<in> set v" by blast
    then have "v = w1" using w1 by simp
    then have "c \<in> set (w1 @ w2)" using \<open>c \<in> set v\<close> by simp
    with e show ?thesis by blast
  next
    case 2
    from "6.IH"(2) [OF s1 2 s2] obtain v where "s1 = v @ s'" "c \<in> set v" by blast
    then have "v = w2" using w2 by simp
    then have "c \<in> set (w1 @ w2)" using \<open>c \<in> set v\<close> by simp
    with e show ?thesis by blast
  qed
next
  case (8 n a s)
  from "8.prems"(2) obtain s1 where s1: "s1 \<in> set (ms a s)" and s2: "s' \<in> set (ms (Rep n a) s1)"
    by auto
  from ms_suffix [OF s2] obtain w2 where w2: "s1 = w2 @ s'" by blast
  have na: "needs c a" using "8.prems"(1) by simp
  from "8.IH"(1) [OF na s1] obtain v where v: "s = v @ s1" "c \<in> set v" by blast
  then have "s = (v @ w2) @ s'" "c \<in> set (v @ w2)" using w2 by simp_all
  then show ?case by blast
qed auto

lemma ms_needs_empty:
  assumes "needs c r" and "c \<notin> set s"
  shows "ms r s = []"
proof (rule ccontr)
  assume "ms r s \<noteq> []"
  then obtain s' where "s' \<in> set (ms r s)" by (cases "ms r s") auto
  from ms_needs [OF assms(1) this] assms(2) show False by auto
qed

lemma Replace_needs:
  assumes "needs c r" and "c \<notin> set s"
  shows "ReplaceAllString r s repl = s"
  using assms(2)
proof (induction s)
  case Nil
  then show ?case by simp
next
  case (Cons x t)
  then have "c \<notin> set (x # t)" by simp
  then have "ms r (x # t) = []" by (rule ms_needs_empty [OF assms(1)])
  then show ?case using Cons by simp
qed

lemma needs_url: "needs CHR '':'' urlRegex"
  by (simp add: urlRegex_def lit_def)

lemma needs_email: "needs CHR ''@'' emailRegex"
  by (simp add: emailRegex_def lit_def)

lemma Replace_NotIn:
  "ReplaceAllString (NotIn cs) s '' '' = map (\<lambda>c. if c \<in> set cs then c else CHR '' '') s"
  by (induction s) auto

lemma ms_star_hd: "\<exists>xs. ms (Rep 0 (In cs)) t = dropWhile (\<lambda>c. c \<in> set cs) t # xs"
proof (induction t)
  case Nil
  show ?case by (simp add: ms.simps(9) [of "In cs" "[]"])
next
  case (Cons c t)
  then obtain xs where xs: "ms (Rep 0 (In cs)) t = dropWhile (\<lambda>c. c \<in> set cs) t # xs"
    by blast
  show ?case
    by (cases "c \<in> set cs") (simp_all add: ms.simps(9) [of "In cs" "c # t"] xs)
qed

lemma Replace_plus_skip:
  "c \<notin> set cs \<Longrightarrow>
     ReplaceAllString (Rep 1 (In cs)) (c # t) repl = c # ReplaceAllString (Rep 1 (In cs)) t repl"
  by simp

lemma Replace_plus_hit:
  assumes "c \<in> set cs"
  shows "ReplaceAllString (Rep 1 (In cs)) (c # t) repl =
           repl @ ReplaceAllString (Rep 1 (In cs)) (dropWhile (\<lambda>c. c \<in> set cs) t) repl"
proof -
  obtain xs where m: "ms (Rep 0 (In cs)) t = dropWhile (\<lambda>c. c \<in> set cs) t # xs"
    using ms_star_hd by blast
  have "length (dropWhile (\<lambda>c. c \<in> set cs) t) \<le> length t"
    by (rule length_dropWhile_le)
  then show ?thesis using assms by (simp add: m)
qed

lemma Replace_length_le:
  "length repl \<le> 1 \<Longrightarrow> length (ReplaceAllString r s repl) \<le> length s"
proof (induction r s repl rule: ReplaceAllString.induct)
  case (1 r repl)
  then show ?case by simp
next
  case (2 r c t repl)
  show ?case
  proof (cases "ms r (c # t)")
    case Nil
    then show ?thesis using 2 by simp
  next
    case (Cons s' xs)
    show ?thesis
    proof (cases "length s' < Suc (length t)")
      case True
      then have "length (ReplaceAllString r s' repl) \<le> length s'"
        using "2.IH"(2) [OF Cons] "2.prems" by simp
      then show ?thesis using True Cons "2.prems" by simp
    next
      case False
      then have "length (ReplaceAllString r t repl) \<le> length t"
        using "2.IH"(3) [OF Cons] "2.prems" by simp
      then show ?thesis using False Cons by simp
    qed
  qed
qed

lemma hasMatch_shrinks: "hasMatch r s \<Longrightarrow> length (ReplaceAllString r s []) < length s"
proof (induction s)
  case Nil
  then show ?case by simp
next
  case (Cons c t)
  show ?case
  proof (cases "matchesAt r (c # t)")
    case True
    then obtain s' xs where m: "ms r (c # t) = s' # xs" and l: "length s' < Suc (length t)"
      by (auto simp: matchesAt_def split: list.splits)
    have "length (ReplaceAllString r s' []) \<le> length s'"
      by (rule Replace_length_le) simp
    then show ?thesis using m l by simp
  next
    case False
    then have h: "hasMatch r t" using Cons.prems by simp
    have "ReplaceAllString r (c # t) [] = c # ReplaceAllString r t []"
      using False by (auto simp: matchesAt_def split: list.splits)
    then show ?thesis using Cons.IH [OF h] by simp
  qed
qed

lemma no_match_identity: "\<not> hasMatch r s \<Longrightarrow> ReplaceAllString r s repl = s"
proof (induction s)
  case Nil
  then show ?case by simp
next
  case (Cons c t)
  then have "\<not> matchesAt r (c # t)" and "ReplaceAllString r t repl = t" by simp_all
  then show ?case by (auto simp: matchesAt_def split: list.splits)
qed

lemmas charset_defs = lowerChars_def upperChars_def digitChars_def reSpace_def asciiSpace_def

lemma HasPrefix_space: "HasPrefix t '' '' \<longleftrightarrow> (\<exists>t'. t = CHR '' '' # t')"
  by (cases t) auto

lemma Contains_Cons_double:
  "Contains (c # t) ''  '' \<longleftrightarrow> (c = CHR '' '' \<and> HasPrefix t '' '') \<or> Contains t ''  ''"
  by simp

lemma space_in_reSpace: "CHR '' '' \<in> set reSpace" and space_in_asciiSpace: "CHR '' '' \<in> set asciiSpace"
  by (simp_all add: charset_defs)

lemma plain_all:
  "list_all (\<lambda>c. toLowerChar c = c \<and> c \<noteq> CHR '':'' \<and> c \<noteq> CHR ''@''
              \<and> (c \<in> set reSpace \<longleftrightarrow> c = CHR '' '')
              \<and> (c \<in> set asciiSpace \<longleftrightarrow> c = CHR '' ''))
     (lowerChars @ digitChars @ '' '')"
  by code_simp

lemma plain_facts:
  assumes "c \<in> set (lowerChars @ digitChars @ '' '')"
  shows "toLowerChar c = c" and "c \<noteq> CHR '':''" and "c \<noteq> CHR ''@''"
    and "c \<in> set reSpace \<longleftrightarrow> c = CHR '' ''"
    and "c \<in> set asciiSpace \<longleftrightarrow> c = CHR '' ''"
  using plain_all assms unfolding list_all_iff by blast+

lemma nonText_chars:
  "list_all (\<lambda>c. c \<in> set (lowerChars @ digitChars @ reSpace))
     (ReplaceAllString nonTextRegex x '' '')"
  unfolding nonTextRegex_def Replace_NotIn list_all_iff
  using space_in_reSpace by auto

lemma nonText_length: "length (ReplaceAllString nonTextRegex x '' '') = length x"
  by (simp add: nonTextRegex_def Replace_NotIn)

lemma space_no_leading:
  assumes "u = [] \<or> hd u \<notin> set reSpace"
  shows "\<not> HasPrefix (ReplaceAllString spaceRegex u '' '') '' ''"
proof (cases u)
  case Nil
  then show ?thesis by simp
next
  case (Cons c t)
  then have c: "c \<notin> set reSpace" using assms by simp
  then have "c \<noteq> CHR '' ''" using space_in_reSpace by auto
  then show ?thesis
    unfolding Cons spaceRegex_def Replace_plus_skip [OF c] by simp
qed

lemma space_step:
  assumes "list_all (\<lambda>c. c \<in> set (lowerChars @ digitChars @ reSpace)) u"
  shows "list_all (\<lambda>c. c \<in> set (lowerChars @ digitChars @ '' ''))
           (ReplaceAllString spaceRegex u '' '')
         \<and> \<not> Contains (ReplaceAllString spaceRegex u '' '') ''  ''"
  using assms
proof (induction u rule: measure_induct_rule [where f = length])
  case (less u)
  show ?case
  proof (cases u)
    case Nil
    then show ?thesis by simp
  next
    case (Cons c t)
    have ct: "c \<in> set (lowerChars @ digitChars @ reSpace)"
      and tt: "list_all (\<lambda>c. c \<in> set (lowerChars @ digitChars @ reSpace)) t"
      using less.prems Cons by simp_all
    show ?thesis
    proof (cases "c \<in> set reSpace")
      case True
      let ?d = "dropWhile (\<lambda>c. c \<in> set reSpace) t"
      have r: "ReplaceAllString spaceRegex u '' '' = CHR '' '' # ReplaceAllString spaceRegex ?d '' ''"
        unfolding Cons spaceRegex_def Replace_plus_hit [OF True] by simp
      have "length ?d \<le> length t" by (rule length_dropWhile_le)
      then have l: "length ?d < length u" using Cons by simp
      have "list_all (\<lambda>c. c \<in> set (lowerChars @ digitChars @ reSpace)) ?d"
        using tt unfolding list_all_iff by (auto dest: set_dropWhileD)
      from less.IH [OF l this]
      have ih1: "list_all (\<lambda>c. c \<in> set (lowerChars @ digitChars @ '' ''))
                   (ReplaceAllString spaceRegex ?d '' '')"
        and ih2: "\<not> Contains (ReplaceAllString spaceRegex ?d '' '') ''  ''"
        by simp_all
      have "?d = [] \<or> hd ?d \<notin> set reSpace"
        using hd_dropWhile [of "\<lambda>c. c \<in> set reSpace" t] by auto
      then have np: "\<not> HasPrefix (ReplaceAllString spaceRegex ?d '' '') '' ''"
        by (rule space_no_leading)
      show ?thesis
        unfolding r Contains_Cons_double using ih1 ih2 np by simp
    next
      case False
      have r: "ReplaceAllString spaceRegex u '' '' = c # ReplaceAllString spaceRegex t '' ''"
        unfolding Cons spaceRegex_def Replace_plus_skip [OF False] by simp
      have l: "length t < length u" using Cons by simp
      from less.IH [OF l tt]
      have ih1: "list_all (\<lambda>c. c \<in> set (lowerChars @ digitChars @ '' ''))
                   (ReplaceAllString spaceRegex t '' '')"
        and ih2: "\<not> Contains (ReplaceAllString spaceRegex t '' '') ''  ''"
        by simp_all
      have c1: "c \<in> set (lowerChars @ digitChars @ '' '')"
        using ct False by auto
      have c2: "c \<noteq> CHR '' ''" using False space_in_reSpace by auto
      show ?thesis
        unfolding r Contains_Cons_double using ih1 ih2 c1 c2 by simp
    qed
  qed
qed

lemma space_length: "length (ReplaceAllString spaceRegex u '' '') \<le> length u"
  by (rule Replace_length_le) simp

lemma space_identity:
  assumes "list_all (\<lambda>c. c \<in> set (lowerChars @ digitChars @ '' '')) t"
    and "\<not> Contains t ''  ''"
  shows "ReplaceAllString spaceRegex t '' '' = t"
  using assms
proof (induction t)
  case Nil
  then show ?case by simp
next
  case (Cons c t)
  have cp: "c \<in> set (lowerChars @ digitChars @ '' '')"
    and tp: "list_all (\<lambda>c. c \<in> set (lowerChars @ digitChars @ '' '')) t"
    using Cons.prems(1) by simp_all
  have nc: "\<not> Contains t ''  ''" and nh: "\<not> (c = CHR '' '' \<and> HasPrefix t '' '')"
    using Cons.prems(2) unfolding Contains_Cons_double by simp_all
  have ih: "ReplaceAllString spaceRegex t '' '' = t"
    by (rule Cons.IH [OF tp nc])
  show ?case
  proof (cases "c \<in> set reSpace")
    case True
    then have c: "c = CHR '' ''" using plain_facts(4) [OF cp] by simp
    then have "\<not> HasPrefix t '' ''" using nh by simp
    then have "t = [] \<or> hd t \<noteq> CHR '' ''"
      unfolding HasPrefix_space by (cases t) auto
    moreover have "t \<noteq> [] \<Longrightarrow> hd t \<in> set (lowerChars @ digitChars @ '' '')"
      using tp unfolding list_all_iff by (cases t) auto
    ultimately have "t = [] \<or> hd t \<notin> set reSpace"
      using plain_facts(4) by blast
    then have d: "dropWhile (\<lambda>c. c \<in> set reSpace) t = t"
      by (cases t) auto
    show ?thesis
      unfolding spaceRegex_def Replace_plus_hit [OF True] d
      using ih c by (simp add: spaceRegex_def)
  next
    case False
    show ?thesis
      unfolding spaceRegex_def Replace_plus_skip [OF False]
      using ih by (simp add: spaceRegex_def)
  qed
qed

end
